theory Spec2Isabelle
  imports Main "HOL-Library.Word"
begin

section \<open>The crowdfunding module \<open>admin_address::backend\<close>\<close>

text \<open>
  A shallow embedding of \<^verbatim>\<open>src/backend/backend.move\<close>. Move's global storage is a
  record of maps from addresses to resources, a \<^verbatim>\<open>&signer\<close> is the address it
  stands for, \<^verbatim>\<open>u64\<close> is a 64-bit word whose addition aborts on overflow, and an entry
  function returns either the new storage or the abort reason together with the storage
  as it was at the aborting instruction.
\<close>

subsection \<open>Data\<close>

type_synonym address = "256 word"
type_synonym u64 = "64 word"
type_synonym bytes = "8 word list"

text \<open>
  The abort reasons: the six error codes of the module (lines 8 to 13, code 1 to 6), and
  the three ways the virtual machine or the coin module stop a call that the module
  itself does not name: \<^verbatim>\<open>borrow_global\<close> of a resource that does not exist, \<^verbatim>\<open>u64\<close>
  overflow, and a coin operation on a balance that is too small.
\<close>

datatype error =
    E_NOT_OWNER
  | E_CAMPAIGN_NOT_FOUND
  | E_CAMPAIGN_COMPLETED
  | E_INSUFFICIENT_FUNDS
  | E_GOAL_NOT_REACHED
  | E_ALREADY_WITHDRAWN
  | MISSING_DATA
  | ARITHMETIC_ERROR
  | COIN_INSUFFICIENT_BALANCE

fun error_code :: "error \<Rightarrow> u64 option" where
  "error_code E_NOT_OWNER = Some 1"
| "error_code E_CAMPAIGN_NOT_FOUND = Some 2"
| "error_code E_CAMPAIGN_COMPLETED = Some 3"
| "error_code E_INSUFFICIENT_FUNDS = Some 4"
| "error_code E_GOAL_NOT_REACHED = Some 5"
| "error_code E_ALREADY_WITHDRAWN = Some 6"
| "error_code _ = None"

record Campaign =
  owner :: address
  title :: bytes
  description :: bytes
  goal :: u64
  donated :: u64
  completed :: bool
  withdrawn :: bool

record CampaignStore =
  campaigns :: "Campaign list"
  next_id :: u64

text \<open>\<^verbatim>\<open>coin::Coin<AptosCoin>\<close> is the number of octas it holds.\<close>

type_synonym coin = nat

record CampaignFunds =
  funds :: coin

text \<open>
  The global storage: the \<^verbatim>\<open>CampaignStore\<close> and \<^verbatim>\<open>CampaignFunds\<close> resources published
  under each address (\<^verbatim>\<open>exists<T>(a)\<close> is \<open>m a \<noteq> None\<close>), and the balance of each
  account's coin store.
\<close>

record world =
  campaign_store :: "address \<rightharpoonup> CampaignStore"
  campaign_funds :: "address \<rightharpoonup> CampaignFunds"
  coin_balance :: "address \<Rightarrow> coin"

type_synonym entry_result = "error \<times> world + world"

subsection \<open>The coin primitives\<close>

text \<open>
  Modelled from the spec: \<^verbatim>\<open>aptos_framework::coin\<close>, which the module calls and which is
  not part of the repository. The spec (section 6) gives its five capabilities: debit
  (fails on insufficient funds), credit, zero, merge and extract, and takes them to be
  overflow-safe: so amounts of coin are natural numbers. Extracting more than a coin holds
  stops the call, as a debit of more than the balance does.
\<close>

definition coin_zero :: coin where
  "coin_zero = 0"

definition coin_withdraw :: "address \<Rightarrow> u64 \<Rightarrow> world \<Rightarrow> error + coin \<times> world" where
  "coin_withdraw account amount w =
     (if coin_balance w account < unat amount then Inl COIN_INSUFFICIENT_BALANCE
      else Inr (unat amount,
                w\<lparr>coin_balance := (coin_balance w)(account := coin_balance w account - unat amount)\<rparr>))"

definition coin_merge :: "coin \<Rightarrow> coin \<Rightarrow> coin" where
  "coin_merge dst source = dst + source"

definition coin_extract :: "coin \<Rightarrow> u64 \<Rightarrow> error + coin \<times> coin" where
  "coin_extract c amount =
     (if c < unat amount then Inl COIN_INSUFFICIENT_BALANCE
      else Inr (c - unat amount, unat amount))"

definition coin_deposit :: "address \<Rightarrow> coin \<Rightarrow> world \<Rightarrow> world" where
  "coin_deposit account c w =
     w\<lparr>coin_balance := (coin_balance w)(account := coin_balance w account + c)\<rparr>"

subsection \<open>Entry functions\<close>

text \<open>
  Every function that reads \<^verbatim>\<open>@admin_address\<close> takes it as its first argument \<open>adm\<close>:
  the named address is fixed when the package is built, outside the source file.
\<close>

definition initialize :: "address \<Rightarrow> world \<Rightarrow> entry_result" where
  "initialize admin_addr w =
     (let w1 = (if campaign_store w admin_addr = None
                then w\<lparr>campaign_store :=
                        (campaign_store w)(admin_addr \<mapsto> \<lparr>campaigns = [], next_id = 0\<rparr>)\<rparr>
                else w);
          w2 = (if campaign_funds w1 admin_addr = None
                then w1\<lparr>campaign_funds :=
                        (campaign_funds w1)(admin_addr \<mapsto> \<lparr>funds = coin_zero\<rparr>)\<rparr>
                else w1)
      in Inr w2)"

definition create_campaign ::
  "address \<Rightarrow> address \<Rightarrow> bytes \<Rightarrow> bytes \<Rightarrow> u64 \<Rightarrow> world \<Rightarrow> entry_result" where
  "create_campaign adm creator_addr ttl descr gl w =
     (case campaign_store w adm of
        None \<Rightarrow> Inl (MISSING_DATA, w)
      | Some store \<Rightarrow>
          let campaign = \<lparr>owner = creator_addr, title = ttl, description = descr, goal = gl,
                          donated = 0, completed = False, withdrawn = False\<rparr>;
              store1 = store\<lparr>campaigns := campaigns store @ [campaign]\<rparr>;
              w1 = w\<lparr>campaign_store := (campaign_store w)(adm \<mapsto> store1)\<rparr>
          in if unat (next_id store1) + 1 < 2 ^ 64
             then Inr (w\<lparr>campaign_store :=
                          (campaign_store w)(adm \<mapsto> store1\<lparr>next_id := next_id store1 + 1\<rparr>)\<rparr>)
             else Inl (ARITHMETIC_ERROR, w1))"

definition donate :: "address \<Rightarrow> address \<Rightarrow> u64 \<Rightarrow> u64 \<Rightarrow> world \<Rightarrow> entry_result" where
  "donate adm donor campaign_index amount w =
     (case campaign_store w adm of
        None \<Rightarrow> Inl (MISSING_DATA, w)
      | Some store \<Rightarrow>
          if \<not> unat campaign_index < length (campaigns store)
          then Inl (E_CAMPAIGN_NOT_FOUND, w)
          else
            let campaign = campaigns store ! unat campaign_index in
            if completed campaign then Inl (E_CAMPAIGN_COMPLETED, w)
            else
              (case coin_withdraw donor amount w of
                 Inl e \<Rightarrow> Inl (e, w)
               | Inr (donation, w1) \<Rightarrow>
                   (case campaign_funds w1 adm of
                      None \<Rightarrow> Inl (MISSING_DATA, w1)
                    | Some funds_store \<Rightarrow>
                        let w2 = w1\<lparr>campaign_funds := (campaign_funds w1)
                                   (adm \<mapsto> funds_store\<lparr>funds :=
                                      coin_merge (funds funds_store) donation\<rparr>)\<rparr>
                        in if \<not> unat (donated campaign) + unat amount < 2 ^ 64
                           then Inl (ARITHMETIC_ERROR, w2)
                           else
                             let campaign1 = campaign\<lparr>donated := donated campaign + amount\<rparr>;
                                 campaign2 = (if goal campaign1 \<le> donated campaign1
                                              then campaign1\<lparr>completed := True\<rparr>
                                              else campaign1)
                             in Inr (w2\<lparr>campaign_store := (campaign_store w2)
                                       (adm \<mapsto> store\<lparr>campaigns :=
                                          (campaigns store)[unat campaign_index := campaign2]\<rparr>)\<rparr>))))"

definition withdraw :: "address \<Rightarrow> address \<Rightarrow> u64 \<Rightarrow> world \<Rightarrow> entry_result" where
  "withdraw adm owner_addr campaign_index w =
     (case campaign_store w adm of
        None \<Rightarrow> Inl (MISSING_DATA, w)
      | Some store \<Rightarrow>
          if \<not> unat campaign_index < length (campaigns store)
          then Inl (E_CAMPAIGN_NOT_FOUND, w)
          else
            let campaign = campaigns store ! unat campaign_index in
            if \<not> owner campaign = owner_addr then Inl (E_NOT_OWNER, w)
            else if \<not> completed campaign then Inl (E_GOAL_NOT_REACHED, w)
            else if withdrawn campaign then Inl (E_ALREADY_WITHDRAWN, w)
            else
              (case campaign_funds w adm of
                 None \<Rightarrow> Inl (MISSING_DATA, w)
               | Some funds_store \<Rightarrow>
                   let withdrawal_amount = donated campaign in
                   (case coin_extract (funds funds_store) withdrawal_amount of
                      Inl e \<Rightarrow> Inl (e, w)
                    | Inr (rest, coins_to_withdraw) \<Rightarrow>
                        let w1 = w\<lparr>campaign_funds := (campaign_funds w)
                                   (adm \<mapsto> funds_store\<lparr>funds := rest\<rparr>)\<rparr>;
                            w2 = coin_deposit owner_addr coins_to_withdraw w1
                        in Inr (w2\<lparr>campaign_store := (campaign_store w2)
                                  (adm \<mapsto> store\<lparr>campaigns :=
                                     (campaigns store)[unat campaign_index :=
                                        campaign\<lparr>withdrawn := True\<rparr>]\<rparr>)\<rparr>))))"

definition admin_withdraw :: "address \<Rightarrow> address \<Rightarrow> u64 \<Rightarrow> world \<Rightarrow> entry_result" where
  "admin_withdraw adm admin_addr campaign_index w =
     (if \<not> admin_addr = adm then Inl (E_NOT_OWNER, w)
      else
        (case campaign_store w adm of
           None \<Rightarrow> Inl (MISSING_DATA, w)
         | Some store \<Rightarrow>
             if \<not> unat campaign_index < length (campaigns store)
             then Inl (E_CAMPAIGN_NOT_FOUND, w)
             else
               let campaign = campaigns store ! unat campaign_index in
               if withdrawn campaign then Inl (E_ALREADY_WITHDRAWN, w)
               else
                 (case campaign_funds w adm of
                    None \<Rightarrow> Inl (MISSING_DATA, w)
                  | Some funds_store \<Rightarrow>
                      let withdrawal_amount = donated campaign in
                      (case coin_extract (funds funds_store) withdrawal_amount of
                         Inl e \<Rightarrow> Inl (e, w)
                       | Inr (rest, coins_to_withdraw) \<Rightarrow>
                           let w1 = w\<lparr>campaign_funds := (campaign_funds w)
                                      (adm \<mapsto> funds_store\<lparr>funds := rest\<rparr>)\<rparr>;
                               w2 = coin_deposit (owner campaign) coins_to_withdraw w1
                           in Inr (w2\<lparr>campaign_store := (campaign_store w2)
                                     (adm \<mapsto> store\<lparr>campaigns :=
                                        (campaigns store)[unat campaign_index :=
                                           campaign\<lparr>withdrawn := True\<rparr>]\<rparr>)\<rparr>)))))"

subsection \<open>View functions\<close>

definition get_campaign_count :: "address \<Rightarrow> world \<Rightarrow> nat" where
  "get_campaign_count adm w =
     (case campaign_store w adm of None \<Rightarrow> 0 | Some store \<Rightarrow> length (campaigns store))"

definition get_campaign ::
  "address \<Rightarrow> u64 \<Rightarrow> world \<Rightarrow> error + address \<times> bytes \<times> bytes \<times> u64 \<times> u64 \<times> bool \<times> bool" where
  "get_campaign adm index w =
     (case campaign_store w adm of
        None \<Rightarrow> Inl MISSING_DATA
      | Some store \<Rightarrow>
          if \<not> unat index < length (campaigns store) then Inl E_CAMPAIGN_NOT_FOUND
          else
            let campaign = campaigns store ! unat index in
            Inr (owner campaign, title campaign, description campaign, goal campaign,
                 donated campaign, completed campaign, withdrawn campaign))"

definition get_all_campaigns :: "address \<Rightarrow> world \<Rightarrow> Campaign list" where
  "get_all_campaigns adm w =
     (case campaign_store w adm of None \<Rightarrow> [] | Some store \<Rightarrow> campaigns store)"

subsection \<open>Transactions\<close>

text \<open>
  A transaction calls one entry function with its signer. A transaction that aborts
  leaves the storage as it was before the call: the virtual machine discards whatever
  the call had written.
\<close>

datatype entry_call =
    Initialize address
  | CreateCampaign address bytes bytes u64
  | Donate address u64 u64
  | Withdraw address u64
  | AdminWithdraw address u64

fun call :: "address \<Rightarrow> entry_call \<Rightarrow> world \<Rightarrow> entry_result" where
  "call adm (Initialize a) w = initialize a w"
| "call adm (CreateCampaign a t d g) w = create_campaign adm a t d g w"
| "call adm (Donate a i n) w = donate adm a i n w"
| "call adm (Withdraw a i) w = withdraw adm a i w"
| "call adm (AdminWithdraw a i) w = admin_withdraw adm a i w"

definition execute :: "address \<Rightarrow> entry_call \<Rightarrow> world \<Rightarrow> world" where
  "execute adm c w = (case call adm c w of Inl _ \<Rightarrow> w | Inr w' \<Rightarrow> w')"

fun run :: "address \<Rightarrow> entry_call list \<Rightarrow> world \<Rightarrow> world" where
  "run adm [] w = w"
| "run adm (c # cs) w = run adm cs (execute adm c w)"

text \<open>
  The storage when the package has just been published: no resource of the module
  exists under any address; the coin balances are whatever they are.
\<close>

definition genesis :: "(address \<Rightarrow> coin) \<Rightarrow> world" where
  "genesis b = \<lparr>campaign_store = Map.empty, campaign_funds = Map.empty, coin_balance = b\<rparr>"

subsection \<open>Observations used in the statements\<close>

text \<open>The campaign stored at position \<open>j\<close> of the registry under \<open>adm\<close>, if there is one.\<close>

definition campaign_at :: "address \<Rightarrow> nat \<Rightarrow> world \<Rightarrow> Campaign option" where
  "campaign_at adm j w =
     (case campaign_store w adm of
        None \<Rightarrow> None
      | Some store \<Rightarrow> if j < length (campaigns store) then Some (campaigns store ! j) else None)"

text \<open>The coins held by the treasury under \<open>adm\<close> (none while it is not published).\<close>

definition treasury :: "address \<Rightarrow> world \<Rightarrow> coin" where
  "treasury adm w = (case campaign_funds w adm of None \<Rightarrow> 0 | Some f \<Rightarrow> funds f)"

text \<open>
  What the treasury still owes: the donations of the campaigns that have not been
  withdrawn.
\<close>

definition due :: "Campaign \<Rightarrow> nat" where
  "due c = (if withdrawn c then 0 else unat (donated c))"

definition unwithdrawn_total :: "Campaign list \<Rightarrow> nat" where
  "unwithdrawn_total cs = sum_list (map due cs)"

text \<open>
  Two invariants of the storage: the registry and the treasury under \<open>adm\<close> are published
  together and the treasury covers what it owes; the counter of a registry is the number
  of its campaigns.
\<close>

definition solvent :: "address \<Rightarrow> world \<Rightarrow> bool" where
  "solvent adm w =
     (case campaign_store w adm of
        None \<Rightarrow> campaign_funds w adm = None
      | Some store \<Rightarrow>
          (case campaign_funds w adm of
             None \<Rightarrow> False
           | Some f \<Rightarrow> unwithdrawn_total (campaigns store) \<le> funds f))"

definition counter_ok :: "address \<Rightarrow> world \<Rightarrow> bool" where
  "counter_ok a w =
     (case campaign_store w a of
        None \<Rightarrow> True
      | Some store \<Rightarrow> unat (next_id store) = length (campaigns store))"

text \<open>
  The campaign at position \<open>j\<close>, if there is one, is withdrawn only if it is completed.
\<close>

definition paid_when_completed :: "address \<Rightarrow> nat \<Rightarrow> world \<Rightarrow> bool" where
  "paid_when_completed adm j w =
     (case campaign_at adm j w of None \<Rightarrow> True | Some c \<Rightarrow> withdrawn c \<longrightarrow> completed c)"

text \<open>
  A sequence of Donate calls on campaign \<open>i\<close>, each given by its donor and amount, and
  the amounts of those calls of the sequence that do not abort.
\<close>

definition donations :: "u64 \<Rightarrow> (address \<times> u64) list \<Rightarrow> entry_call list" where
  "donations i ds = map (\<lambda>(donor, amount). Donate donor i amount) ds"

fun accepted :: "address \<Rightarrow> u64 \<Rightarrow> (address \<times> u64) list \<Rightarrow> world \<Rightarrow> u64 list" where
  "accepted adm i [] w = []"
| "accepted adm i ((donor, amount) # ds) w =
     (case donate adm donor i amount w of
        Inl _ \<Rightarrow> accepted adm i ds w
      | Inr w' \<Rightarrow> amount # accepted adm i ds w')"

text \<open>Whether a call is an AdminWithdraw on position \<open>j\<close>.\<close>

fun admin_withdraw_on :: "nat \<Rightarrow> entry_call \<Rightarrow> bool" where
  "admin_withdraw_on j (AdminWithdraw a i) = (unat i = j)"
| "admin_withdraw_on j _ = False"

fun is_create_campaign :: "entry_call \<Rightarrow> bool" where
  "is_create_campaign (CreateCampaign a t d g) = True"
| "is_create_campaign _ = False"

section \<open>Properties\<close>

lemmas coin_defs = coin_withdraw_def coin_merge_def coin_extract_def coin_deposit_def coin_zero_def
lemmas entry_defs = initialize_def create_campaign_def donate_def withdraw_def admin_withdraw_def
lemmas eval_defs = entry_defs coin_defs execute_def genesis_def

subsection \<open>Resources, once published, stay published\<close>

lemma execute_exists:
  "(campaign_store w a \<noteq> None \<longrightarrow> campaign_store (execute adm c w) a \<noteq> None)
   \<and> (campaign_funds w a \<noteq> None \<longrightarrow> campaign_funds (execute adm c w) a \<noteq> None)"
  by (cases c)
     (auto simp: execute_def entry_defs coin_defs Let_def split: option.splits if_splits)

lemma run_exists:
  "campaign_store w a \<noteq> None \<Longrightarrow> campaign_funds w a \<noteq> None \<Longrightarrow>
   campaign_store (run adm cs w) a \<noteq> None \<and> campaign_funds (run adm cs w) a \<noteq> None"
proof (induction cs arbitrary: w)
  case Nil
  then show ?case by simp
next
  case (Cons c cs)
  from Cons.prems execute_exists [of w a adm c]
  have "campaign_store (execute adm c w) a \<noteq> None" "campaign_funds (execute adm c w) a \<noteq> None"
    by blast+
  then show ?case using Cons.IH by simp
qed

lemma initialize_noop:
  "campaign_store w a \<noteq> None \<Longrightarrow> campaign_funds w a \<noteq> None \<Longrightarrow> initialize a w = Inr w"
  by (auto simp: initialize_def Let_def)

lemma initialize_creates:
  "campaign_store (execute adm (Initialize a) w) a \<noteq> None
   \<and> campaign_funds (execute adm (Initialize a) w) a \<noteq> None"
  by (simp add: execute_def initialize_def Let_def)

subsection \<open>What a call that returns has done\<close>

lemma u64_add: "unat (a :: u64) + unat b < 2 ^ 64 \<Longrightarrow> unat (a + b) = unat a + unat b"
  by (simp add: unat_add_lem [THEN iffD1])

lemma u64_succ: "unat (a :: u64) + 1 < 2 ^ 64 \<Longrightarrow> unat (a + 1) = unat a + 1"
  using u64_add [of a 1] by simp

lemma create_campaign_Inr:
  "create_campaign adm x t d g w = Inr w' \<longleftrightarrow>
     (\<exists>st. campaign_store w adm = Some st \<and> unat (next_id st) + 1 < 2 ^ 64
        \<and> w' = w\<lparr>campaign_store := (campaign_store w)(adm \<mapsto>
             st\<lparr>campaigns := campaigns st @
                [\<lparr>owner = x, title = t, description = d, goal = g, donated = 0,
                  completed = False, withdrawn = False\<rparr>],
              next_id := next_id st + 1\<rparr>)\<rparr>)"
  by (auto simp: create_campaign_def Let_def split: option.splits)

lemma donate_Inr:
  "donate adm donor i n w = Inr w' \<longleftrightarrow>
     (\<exists>st f. campaign_store w adm = Some st \<and> campaign_funds w adm = Some f
        \<and> unat i < length (campaigns st)
        \<and> \<not> completed (campaigns st ! unat i)
        \<and> unat n \<le> coin_balance w donor
        \<and> unat (donated (campaigns st ! unat i)) + unat n < 2 ^ 64
        \<and> w' = w\<lparr>coin_balance := (coin_balance w)(donor := coin_balance w donor - unat n),
                  campaign_funds := (campaign_funds w)(adm \<mapsto> f\<lparr>funds := funds f + unat n\<rparr>),
                  campaign_store := (campaign_store w)(adm \<mapsto> st\<lparr>campaigns :=
                    (campaigns st)[unat i :=
                       (if goal (campaigns st ! unat i) \<le> donated (campaigns st ! unat i) + n
                        then (campaigns st ! unat i)
                               \<lparr>donated := donated (campaigns st ! unat i) + n,
                                completed := True\<rparr>
                        else (campaigns st ! unat i)
                               \<lparr>donated := donated (campaigns st ! unat i) + n\<rparr>)]\<rparr>)\<rparr>)"
  by (auto simp: donate_def coin_withdraw_def coin_merge_def Let_def split: option.splits)

lemma withdraw_Inr:
  "withdraw adm caller i w = Inr w' \<longleftrightarrow>
     (\<exists>st f. campaign_store w adm = Some st \<and> campaign_funds w adm = Some f
        \<and> unat i < length (campaigns st)
        \<and> owner (campaigns st ! unat i) = caller
        \<and> completed (campaigns st ! unat i)
        \<and> \<not> withdrawn (campaigns st ! unat i)
        \<and> unat (donated (campaigns st ! unat i)) \<le> funds f
        \<and> w' = w\<lparr>campaign_funds := (campaign_funds w)(adm \<mapsto>
                     f\<lparr>funds := funds f - unat (donated (campaigns st ! unat i))\<rparr>),
                  coin_balance := (coin_balance w)(caller :=
                     coin_balance w caller + unat (donated (campaigns st ! unat i))),
                  campaign_store := (campaign_store w)(adm \<mapsto> st\<lparr>campaigns :=
                    (campaigns st)[unat i := (campaigns st ! unat i)\<lparr>withdrawn := True\<rparr>]\<rparr>)\<rparr>)"
  by (auto simp: withdraw_def coin_extract_def coin_deposit_def Let_def split: option.splits)

lemma admin_withdraw_Inr:
  "admin_withdraw adm caller i w = Inr w' \<longleftrightarrow>
     (\<exists>st f. caller = adm \<and> campaign_store w adm = Some st \<and> campaign_funds w adm = Some f
        \<and> unat i < length (campaigns st)
        \<and> \<not> withdrawn (campaigns st ! unat i)
        \<and> unat (donated (campaigns st ! unat i)) \<le> funds f
        \<and> w' = w\<lparr>campaign_funds := (campaign_funds w)(adm \<mapsto>
                     f\<lparr>funds := funds f - unat (donated (campaigns st ! unat i))\<rparr>),
                  coin_balance := (coin_balance w)(owner (campaigns st ! unat i) :=
                     coin_balance w (owner (campaigns st ! unat i))
                       + unat (donated (campaigns st ! unat i))),
                  campaign_store := (campaign_store w)(adm \<mapsto> st\<lparr>campaigns :=
                    (campaigns st)[unat i := (campaigns st ! unat i)\<lparr>withdrawn := True\<rparr>]\<rparr>)\<rparr>)"
  by (auto simp: admin_withdraw_def coin_extract_def coin_deposit_def Let_def split: option.splits)

lemma initialize_Inr:
  "initialize a w = Inr w' \<longleftrightarrow>
     w' = (let w1 = (if campaign_store w a = None
                then w\<lparr>campaign_store :=
                        (campaign_store w)(a \<mapsto> \<lparr>campaigns = [], next_id = 0\<rparr>)\<rparr>
                else w)
           in (if campaign_funds w1 a = None
                then w1\<lparr>campaign_funds := (campaign_funds w1)(a \<mapsto> \<lparr>funds = 0\<rparr>)\<rparr>
                else w1))"
  by (auto simp: initialize_def coin_zero_def Let_def)

lemmas call_Inr = initialize_Inr create_campaign_Inr donate_Inr withdraw_Inr admin_withdraw_Inr

lemma execute_cases:
  "execute adm c w = w \<or> call adm c w = Inr (execute adm c w)"
  by (simp add: execute_def split: sum.splits)

subsection \<open>The counter is the number of campaigns\<close>

lemma call_counter_ok:
  "counter_ok a w \<Longrightarrow> call adm c w = Inr w' \<Longrightarrow> counter_ok a w'"
  by (cases c)
     (auto simp: call_Inr counter_ok_def u64_succ Let_def split: option.splits if_splits)

lemma execute_counter_ok: "counter_ok a w \<Longrightarrow> counter_ok a (execute adm c w)"
  using execute_cases [of adm c w] call_counter_ok [of a w adm c] by auto

lemma run_counter_ok: "counter_ok a w \<Longrightarrow> counter_ok a (run adm cs w)"
  by (induction cs arbitrary: w) (simp_all add: execute_counter_ok)

lemma genesis_counter_ok: "counter_ok a (genesis b)"
  by (simp add: counter_ok_def genesis_def)

subsection \<open>The treasury covers what it owes\<close>

lemma total_update:
  "i < length cs \<Longrightarrow>
   unwithdrawn_total (cs[i := c]) + due (cs ! i) = unwithdrawn_total cs + due c"
  unfolding unwithdrawn_total_def
proof (induction cs arbitrary: i)
  case Nil
  then show ?case by simp
next
  case (Cons x xs)
  then show ?case by (cases i) auto
qed

lemma total_append: "unwithdrawn_total (cs @ [c]) = unwithdrawn_total cs + due c"
  by (simp add: unwithdrawn_total_def)

lemma due_le_total: "i < length cs \<Longrightarrow> due (cs ! i) \<le> unwithdrawn_total cs"
  unfolding unwithdrawn_total_def
proof (induction cs arbitrary: i)
  case Nil
  then show ?case by simp
next
  case (Cons x xs)
  show ?case
  proof (cases i)
    case 0
    then show ?thesis by simp
  next
    case (Suc j)
    with Cons.prems have "j < length xs" by simp
    from Cons.IH [OF this] Suc show ?thesis by simp
  qed
qed

lemma initialize_solvent:
  assumes "solvent adm w" "initialize a w = Inr w'"
  shows "solvent adm w'"
  using assms
  by (auto simp: initialize_Inr solvent_def unwithdrawn_total_def Let_def
           split: option.splits if_splits)

lemma create_campaign_solvent:
  assumes "solvent adm w" "create_campaign adm x t d g w = Inr w'"
  shows "solvent adm w'"
  using assms
  by (auto simp: create_campaign_Inr solvent_def total_append due_def split: option.splits)

lemma donate_solvent:
  assumes "solvent adm w" "donate adm donor i n w = Inr w'"
  shows "solvent adm w'"
proof -
  from assms(2) obtain st f c' where
    st: "campaign_store w adm = Some st" and f: "campaign_funds w adm = Some f"
    and i: "unat i < length (campaigns st)"
    and ov: "unat (donated (campaigns st ! unat i)) + unat n < 2 ^ 64"
    and c': "c' = (if goal (campaigns st ! unat i) \<le> donated (campaigns st ! unat i) + n
                   then (campaigns st ! unat i)
                          \<lparr>donated := donated (campaigns st ! unat i) + n, completed := True\<rparr>
                   else (campaigns st ! unat i)
                          \<lparr>donated := donated (campaigns st ! unat i) + n\<rparr>)"
    and st': "campaign_store w' adm = Some (st\<lparr>campaigns := (campaigns st)[unat i := c']\<rparr>)"
    and f': "campaign_funds w' adm = Some (f\<lparr>funds := funds f + unat n\<rparr>)"
    unfolding donate_Inr by auto
  have "due c' \<le> due (campaigns st ! unat i) + unat n"
    using ov by (simp add: c' due_def u64_add)
  with total_update [OF i, of c']
  have "unwithdrawn_total ((campaigns st)[unat i := c']) \<le> unwithdrawn_total (campaigns st) + unat n"
    by linarith
  moreover from assms(1) st f have "unwithdrawn_total (campaigns st) \<le> funds f"
    by (simp add: solvent_def)
  ultimately show ?thesis
    using st' f' by (simp add: solvent_def)
qed

lemma payout_solvent:
  assumes sol: "solvent adm w"
    and st: "campaign_store w adm = Some st" and f: "campaign_funds w adm = Some f"
    and i: "i < length (campaigns st)"
    and nw: "\<not> withdrawn (campaigns st ! i)"
    and st': "campaign_store w' adm =
                Some (st\<lparr>campaigns := (campaigns st)[i := (campaigns st ! i)\<lparr>withdrawn := True\<rparr>]\<rparr>)"
    and f': "campaign_funds w' adm = Some (f\<lparr>funds := funds f - unat (donated (campaigns st ! i))\<rparr>)"
  shows "solvent adm w'"
proof -
  let ?c = "campaigns st ! i"
  have "due (?c\<lparr>withdrawn := True\<rparr>) = 0" "due ?c = unat (donated ?c)"
    using nw by (simp_all add: due_def)
  with total_update [OF i, of "?c\<lparr>withdrawn := True\<rparr>"]
  have "unwithdrawn_total ((campaigns st)[i := ?c\<lparr>withdrawn := True\<rparr>]) + unat (donated ?c)
          = unwithdrawn_total (campaigns st)"
    by simp
  moreover from sol st f have "unwithdrawn_total (campaigns st) \<le> funds f"
    by (simp add: solvent_def)
  ultimately show ?thesis
    using st' f' by (simp add: solvent_def)
qed

lemma withdraw_solvent:
  assumes "solvent adm w" "withdraw adm caller i w = Inr w'"
  shows "solvent adm w'"
proof -
  from assms(2) obtain st f where
    "campaign_store w adm = Some st" "campaign_funds w adm = Some f"
    "unat i < length (campaigns st)" "\<not> withdrawn (campaigns st ! unat i)"
    "campaign_store w' adm = Some (st\<lparr>campaigns :=
        (campaigns st)[unat i := (campaigns st ! unat i)\<lparr>withdrawn := True\<rparr>]\<rparr>)"
    "campaign_funds w' adm = Some (f\<lparr>funds := funds f - unat (donated (campaigns st ! unat i))\<rparr>)"
    unfolding withdraw_Inr by auto
  with assms(1) show ?thesis by (rule payout_solvent)
qed

lemma admin_withdraw_solvent:
  assumes "solvent adm w" "admin_withdraw adm caller i w = Inr w'"
  shows "solvent adm w'"
proof -
  from assms(2) obtain st f where
    "campaign_store w adm = Some st" "campaign_funds w adm = Some f"
    "unat i < length (campaigns st)" "\<not> withdrawn (campaigns st ! unat i)"
    "campaign_store w' adm = Some (st\<lparr>campaigns :=
        (campaigns st)[unat i := (campaigns st ! unat i)\<lparr>withdrawn := True\<rparr>]\<rparr>)"
    "campaign_funds w' adm = Some (f\<lparr>funds := funds f - unat (donated (campaigns st ! unat i))\<rparr>)"
    unfolding admin_withdraw_Inr by auto
  with assms(1) show ?thesis by (rule payout_solvent)
qed

lemma call_solvent: "solvent adm w \<Longrightarrow> call adm c w = Inr w' \<Longrightarrow> solvent adm w'"
  by (cases c)
     (auto intro: initialize_solvent create_campaign_solvent donate_solvent withdraw_solvent
        admin_withdraw_solvent)

lemma execute_solvent: "solvent adm w \<Longrightarrow> solvent adm (execute adm c w)"
  using execute_cases [of adm c w] call_solvent [of adm w c] by auto

lemma run_solvent: "solvent adm w \<Longrightarrow> solvent adm (run adm cs w)"
  by (induction cs arbitrary: w) (simp_all add: execute_solvent)

lemma genesis_solvent: "solvent adm (genesis b)"
  by (simp add: solvent_def genesis_def)

lemma solvent_covers:
  assumes "solvent adm w" "campaign_store w adm = Some st" "i < length (campaigns st)"
    "\<not> withdrawn (campaigns st ! i)"
  shows "\<exists>f. campaign_funds w adm = Some f \<and> unat (donated (campaigns st ! i)) \<le> funds f"
proof -
  from assms(1,2) obtain f where f: "campaign_funds w adm = Some f"
    and le: "unwithdrawn_total (campaigns st) \<le> funds f"
    by (auto simp: solvent_def split: option.splits)
  from due_le_total [OF assms(3)] assms(4)
  have "unat (donated (campaigns st ! i)) \<le> unwithdrawn_total (campaigns st)"
    by (simp add: due_def)
  with f le show ?thesis by auto
qed

subsection \<open>Initialize\<close>

text \<open>
  Claim C8. Initialize never aborts. Called by \<open>a\<close>, it publishes an empty registry with
  counter 0 and a treasury of zero coins under \<open>a\<close> where they do not exist yet, and
  changes nothing else. A second call returns the storage it is given: two calls leave
  the same storage as one, and so does every later call, whatever transactions have run in
  between.
\<close>

theorem initialize_idempotent:
  "initialize a w = Inr (execute adm (Initialize a) w)
   \<and> (campaign_store w a = None \<longrightarrow>
        campaign_store (execute adm (Initialize a) w) a = Some \<lparr>campaigns = [], next_id = 0\<rparr>)
   \<and> (campaign_funds w a = None \<longrightarrow>
        campaign_funds (execute adm (Initialize a) w) a = Some \<lparr>funds = 0\<rparr>)
   \<and> (campaign_store w a \<noteq> None \<longrightarrow>
        campaign_store (execute adm (Initialize a) w) = campaign_store w)
   \<and> (campaign_funds w a \<noteq> None \<longrightarrow>
        campaign_funds (execute adm (Initialize a) w) = campaign_funds w)
   \<and> (\<forall>b. b \<noteq> a \<longrightarrow>
        campaign_store (execute adm (Initialize a) w) b = campaign_store w b
        \<and> campaign_funds (execute adm (Initialize a) w) b = campaign_funds w b)
   \<and> coin_balance (execute adm (Initialize a) w) = coin_balance w
   \<and> initialize a (execute adm (Initialize a) w) = Inr (execute adm (Initialize a) w)
   \<and> run adm [Initialize a, Initialize a] w = run adm [Initialize a] w
   \<and> initialize a (run adm cs (execute adm (Initialize a) w))
        = Inr (run adm cs (execute adm (Initialize a) w))"
proof -
  let ?w1 = "execute adm (Initialize a) w"
  have ex: "campaign_store ?w1 a \<noteq> None" "campaign_funds ?w1 a \<noteq> None"
    using initialize_creates [of adm a w] by blast+
  have again: "initialize a ?w1 = Inr ?w1"
    using ex by (rule initialize_noop)
  have later: "initialize a (run adm cs ?w1) = Inr (run adm cs ?w1)"
    using run_exists [OF ex, of adm cs] by (simp add: initialize_noop)
  have first: "initialize a w = Inr ?w1"
    by (simp add: execute_def initialize_def Let_def)
  have twice: "run adm [Initialize a, Initialize a] w = run adm [Initialize a] w"
    using again by (simp add: execute_def)
  have fields: "(campaign_store w a = None \<longrightarrow>
        campaign_store ?w1 a = Some \<lparr>campaigns = [], next_id = 0\<rparr>)
   \<and> (campaign_funds w a = None \<longrightarrow> campaign_funds ?w1 a = Some \<lparr>funds = 0\<rparr>)
   \<and> (campaign_store w a \<noteq> None \<longrightarrow> campaign_store ?w1 = campaign_store w)
   \<and> (campaign_funds w a \<noteq> None \<longrightarrow> campaign_funds ?w1 = campaign_funds w)
   \<and> (\<forall>b. b \<noteq> a \<longrightarrow> campaign_store ?w1 b = campaign_store w b
        \<and> campaign_funds ?w1 b = campaign_funds w b)
   \<and> coin_balance ?w1 = coin_balance w"
    by (auto simp: execute_def initialize_def coin_zero_def Let_def)
  from first fields again twice later show ?thesis by blast
qed

theorem initialize_idempotent_witness:
  "campaign_store (genesis (\<lambda>_. 0)) 1 = None
   \<and> campaign_funds (genesis (\<lambda>_. 0)) 1 = None
   \<and> campaign_store (execute 1 (Initialize 1) (genesis (\<lambda>_. 0))) 1
        = Some \<lparr>campaigns = [], next_id = 0\<rparr>
   \<and> campaign_funds (execute 1 (Initialize 1) (genesis (\<lambda>_. 0))) 1 = Some \<lparr>funds = 0\<rparr>
   \<and> campaign_store (execute 1 (Initialize 1) (execute 1 (Initialize 1) (genesis (\<lambda>_. 0))))
        = campaign_store (execute 1 (Initialize 1) (genesis (\<lambda>_. 0)))
   \<and> campaign_funds (execute 1 (Initialize 1) (execute 1 (Initialize 1) (genesis (\<lambda>_. 0))))
        = campaign_funds (execute 1 (Initialize 1) (genesis (\<lambda>_. 0)))
   \<and> campaign_store (execute 1 (Initialize 1) (genesis (\<lambda>_. 0))) 2 = None"
proof -
  let ?g = "genesis (\<lambda>_. 0)"
  let ?w1 = "execute 1 (Initialize 1) ?g"
  have g: "campaign_store ?g 1 = None" "campaign_funds ?g 1 = None"
    by (simp_all add: genesis_def)
  have w1: "campaign_store ?w1 1 \<noteq> None" "campaign_funds ?w1 1 \<noteq> None"
    by (simp_all add: eval_defs)
  have ne: "(2 :: address) \<noteq> 1" by simp
  show ?thesis
    using g w1 ne initialize_idempotent [of 1 ?g 1 "[]"] initialize_idempotent [of 1 ?w1 1 "[]"]
    by (simp add: genesis_def)
qed

subsection \<open>Rejected calls\<close>

text \<open>
  Claim C5. When Withdraw aborts, for whatever reason, the storage at the aborting
  instruction is the storage the call was given: every check comes before the first
  write. So the registry, the treasury and the balances are as they were.
\<close>

theorem withdraw_failure_unchanged:
  "withdraw adm caller i w = Inl (e, w') \<Longrightarrow> w' = w \<and> execute adm (Withdraw caller i) w = w"
  by (auto simp: withdraw_def coin_extract_def execute_def Let_def
           split: option.splits if_splits)

theorem withdraw_failure_unchanged_witness:
  "withdraw 1 10 0 (run 1 [Initialize 1, CreateCampaign 10 [] [] 1000] (genesis (\<lambda>_. 0)))
     = Inl (E_GOAL_NOT_REACHED, run 1 [Initialize 1, CreateCampaign 10 [] [] 1000] (genesis (\<lambda>_. 0)))
   \<and> execute 1 (Withdraw 10 0) (run 1 [Initialize 1, CreateCampaign 10 [] [] 1000] (genesis (\<lambda>_. 0)))
     = run 1 [Initialize 1, CreateCampaign 10 [] [] 1000] (genesis (\<lambda>_. 0))"
proof -
  let ?w = "run 1 [Initialize 1, CreateCampaign 10 [] [] 1000] (genesis (\<lambda>_. 0))"
  have h: "withdraw 1 10 0 ?w = Inl (E_GOAL_NOT_REACHED, ?w)"
    by (simp add: eval_defs)
  from withdraw_failure_unchanged [OF h] h show ?thesis by simp
qed

text \<open>
  Claim C6, as the code has it. While the registry is not published, Donate stops with the
  virtual machine's missing-resource failure, for every index. With the registry
  published, Donate on an index that is at least the number of campaigns aborts with
  \<open>E_CAMPAIGN_NOT_FOUND\<close>, and Donate on a campaign that is completed aborts with
  \<open>E_CAMPAIGN_COMPLETED\<close>, for every donor and every amount. In all three cases nothing
  has been written when the call aborts.
\<close>

theorem donate_rejections:
  "(campaign_store w adm = None \<longrightarrow>
      donate adm donor i amount w = Inl (MISSING_DATA, w)
      \<and> execute adm (Donate donor i amount) w = w)
   \<and> (\<forall>st. campaign_store w adm = Some st \<longrightarrow>
        (length (campaigns st) \<le> unat i \<longrightarrow>
           donate adm donor i amount w = Inl (E_CAMPAIGN_NOT_FOUND, w)
           \<and> execute adm (Donate donor i amount) w = w)
        \<and> (unat i < length (campaigns st) \<and> completed (campaigns st ! unat i) \<longrightarrow>
           donate adm donor i amount w = Inl (E_CAMPAIGN_COMPLETED, w)
           \<and> execute adm (Donate donor i amount) w = w))"
  by (simp add: donate_def execute_def)

theorem donate_rejections_witness:
  "donate 1 12 0 50 (genesis (\<lambda>_. 5000)) = Inl (MISSING_DATA, genesis (\<lambda>_. 5000))
   \<and> donate 1 12 1 50 (run 1 [Initialize 1, CreateCampaign 10 [] [] 1000, Donate 11 0 1000]
                       (genesis (\<lambda>_. 5000)))
     = Inl (E_CAMPAIGN_NOT_FOUND,
            run 1 [Initialize 1, CreateCampaign 10 [] [] 1000, Donate 11 0 1000]
              (genesis (\<lambda>_. 5000)))
   \<and> donate 1 12 0 50 (run 1 [Initialize 1, CreateCampaign 10 [] [] 1000, Donate 11 0 1000]
                       (genesis (\<lambda>_. 5000)))
     = Inl (E_CAMPAIGN_COMPLETED,
            run 1 [Initialize 1, CreateCampaign 10 [] [] 1000, Donate 11 0 1000]
              (genesis (\<lambda>_. 5000)))"
proof -
  let ?g = "genesis (\<lambda>_. 5000)"
  let ?w = "run 1 [Initialize 1, CreateCampaign 10 [] [] 1000, Donate 11 0 1000] ?g"
  let ?c = "\<lparr>owner = 10, title = [], description = [], goal = 1000, donated = 1000,
             completed = True, withdrawn = False\<rparr>"
  have g: "campaign_store ?g 1 = None"
    by (simp add: genesis_def)
  have s: "campaign_store ?w 1 = Some \<lparr>campaigns = [?c], next_id = 1\<rparr>"
    by (simp add: eval_defs)
  show ?thesis
    using g s
      donate_rejections [where w = ?g and adm = 1 and donor = 12 and i = 0 and amount = 50]
      donate_rejections [where w = ?w and adm = 1 and donor = 12 and i = 1 and amount = 50]
      donate_rejections [where w = ?w and adm = 1 and donor = 12 and i = 0 and amount = 50]
    by simp
qed

text \<open>
  The claim as first stated fails before initialization: the registry holds no campaign,
  index 0 is out of range, and Donate stops at the borrow in line 87 with a failure that is
  not \<open>E_CAMPAIGN_NOT_FOUND\<close>.
\<close>

theorem donate_uninitialized:
  "get_campaign_count 1 (genesis (\<lambda>_. 5000)) = 0
   \<and> donate 1 12 0 50 (genesis (\<lambda>_. 5000)) = Inl (MISSING_DATA, genesis (\<lambda>_. 5000))
   \<and> donate 1 12 0 50 (genesis (\<lambda>_. 5000))
       \<noteq> Inl (E_CAMPAIGN_NOT_FOUND, genesis (\<lambda>_. 5000))"
  by (simp add: donate_def get_campaign_count_def genesis_def)

subsection \<open>Looking a campaign up\<close>

text \<open>
  Claim C7, as the code has it. While the registry is not published, GetCampaign stops
  with the virtual machine's missing-resource failure, which is not
  \<open>E_CAMPAIGN_NOT_FOUND\<close>; it does not return a default. With the registry published, it
  aborts with \<open>E_CAMPAIGN_NOT_FOUND\<close> on every index that is at least the number of
  campaigns, and returns the seven fields of the campaign on every smaller index.
\<close>

theorem get_campaign_cases:
  "(campaign_store w adm = None \<longrightarrow> get_campaign adm i w = Inl MISSING_DATA)
   \<and> (\<forall>st. campaign_store w adm = Some st \<longrightarrow>
        (length (campaigns st) \<le> unat i \<longrightarrow> get_campaign adm i w = Inl E_CAMPAIGN_NOT_FOUND)
        \<and> (unat i < length (campaigns st) \<longrightarrow>
             get_campaign adm i w =
               Inr (owner (campaigns st ! unat i), title (campaigns st ! unat i),
                    description (campaigns st ! unat i), goal (campaigns st ! unat i),
                    donated (campaigns st ! unat i), completed (campaigns st ! unat i),
                    withdrawn (campaigns st ! unat i))))"
  by (simp add: get_campaign_def Let_def)

theorem get_campaign_cases_witness:
  "get_campaign 1 5 (genesis (\<lambda>_. 0)) = Inl MISSING_DATA
   \<and> get_campaign 1 5 (run 1 [Initialize 1, CreateCampaign 10 [70] [72] 1000] (genesis (\<lambda>_. 0)))
       = Inl E_CAMPAIGN_NOT_FOUND
   \<and> get_campaign 1 0 (run 1 [Initialize 1, CreateCampaign 10 [70] [72] 1000] (genesis (\<lambda>_. 0)))
       = Inr (10, [70], [72], 1000, 0, False, False)"
proof -
  let ?g = "genesis (\<lambda>_. 0)"
  let ?w = "run 1 [Initialize 1, CreateCampaign 10 [70] [72] 1000] ?g"
  let ?c = "\<lparr>owner = 10, title = [70], description = [72], goal = 1000, donated = 0,
             completed = False, withdrawn = False\<rparr>"
  have g: "campaign_store ?g 1 = None"
    by (simp add: genesis_def)
  have s: "campaign_store ?w 1 = Some \<lparr>campaigns = [?c], next_id = 1\<rparr>"
    by (simp add: eval_defs)
  show ?thesis
    using g s get_campaign_cases [of ?g 1 5] get_campaign_cases [of ?w 1 5]
      get_campaign_cases [of ?w 1 0]
    by simp
qed

text \<open>
  The claim as first stated fails before initialization: the registry holds no campaign,
  index 5 is out of range, and the failure is not \<open>E_CAMPAIGN_NOT_FOUND\<close>.
\<close>

theorem get_campaign_uninitialized:
  "get_campaign_count 1 (genesis (\<lambda>_. 0)) = 0
   \<and> get_campaign 1 5 (genesis (\<lambda>_. 0)) \<noteq> Inl E_CAMPAIGN_NOT_FOUND"
  by (simp add: get_campaign_def get_campaign_count_def genesis_def)

subsection \<open>Withdrawals\<close>

text \<open>
  Claim C2, as the code has it. In every storage reached from publication by any
  transactions, for a campaign at an index in range: when the caller is its owner, it is
  completed and not withdrawn, Withdraw returns; the treasury holds at least the donated
  amount and loses exactly that amount, the owner's balance gains exactly that amount, the
  campaign's withdrawn flag is set and nothing else changes. Withdraw aborts with
  \<open>E_NOT_OWNER\<close> when the caller is not the owner, with \<open>E_GOAL_NOT_REACHED\<close> when the
  owner calls and the campaign is not completed, whether it is withdrawn or not, and with
  \<open>E_ALREADY_WITHDRAWN\<close> when the owner calls, the campaign is completed and already
  withdrawn: the checks are made in this order.
\<close>

theorem owner_withdraw_correct:
  assumes w: "w = run adm cs (genesis b)"
    and st: "campaign_store w adm = Some st"
    and i: "unat i < length (campaigns st)"
    and c: "c = campaigns st ! unat i"
  shows "(owner c = caller \<and> completed c \<and> \<not> withdrawn c \<longrightarrow>
           (\<exists>f. campaign_funds w adm = Some f \<and> unat (donated c) \<le> funds f
              \<and> withdraw adm caller i w =
                  Inr (w\<lparr>campaign_funds := (campaign_funds w)(adm \<mapsto>
                            f\<lparr>funds := funds f - unat (donated c)\<rparr>),
                         coin_balance := (coin_balance w)(caller :=
                            coin_balance w caller + unat (donated c)),
                         campaign_store := (campaign_store w)(adm \<mapsto> st\<lparr>campaigns :=
                            (campaigns st)[unat i := c\<lparr>withdrawn := True\<rparr>]\<rparr>)\<rparr>)))
       \<and> (owner c \<noteq> caller \<longrightarrow> withdraw adm caller i w = Inl (E_NOT_OWNER, w))
       \<and> (owner c = caller \<and> \<not> completed c \<longrightarrow>
            withdraw adm caller i w = Inl (E_GOAL_NOT_REACHED, w))
       \<and> (owner c = caller \<and> completed c \<and> withdrawn c \<longrightarrow>
            withdraw adm caller i w = Inl (E_ALREADY_WITHDRAWN, w))"
proof -
  have sol: "solvent adm w"
    unfolding w by (rule run_solvent [OF genesis_solvent])
  have ok: "\<exists>f. campaign_funds w adm = Some f \<and> unat (donated c) \<le> funds f
              \<and> withdraw adm caller i w =
                  Inr (w\<lparr>campaign_funds := (campaign_funds w)(adm \<mapsto>
                            f\<lparr>funds := funds f - unat (donated c)\<rparr>),
                         coin_balance := (coin_balance w)(caller :=
                            coin_balance w caller + unat (donated c)),
                         campaign_store := (campaign_store w)(adm \<mapsto> st\<lparr>campaigns :=
                            (campaigns st)[unat i := c\<lparr>withdrawn := True\<rparr>]\<rparr>)\<rparr>)"
    if h: "owner c = caller" "completed c" "\<not> withdrawn c"
  proof -
    from solvent_covers [OF sol st i] h(3) c obtain f where
      f: "campaign_funds w adm = Some f" "unat (donated c) \<le> funds f"
      by auto
    with st i c h show ?thesis
      by (simp add: withdraw_Inr)
  qed
  have fail: "owner c \<noteq> caller \<longrightarrow> withdraw adm caller i w = Inl (E_NOT_OWNER, w)"
    "owner c = caller \<and> \<not> completed c \<longrightarrow>
       withdraw adm caller i w = Inl (E_GOAL_NOT_REACHED, w)"
    "owner c = caller \<and> completed c \<and> withdrawn c \<longrightarrow>
       withdraw adm caller i w = Inl (E_ALREADY_WITHDRAWN, w)"
    using st i c by (simp_all add: withdraw_def)
  from ok fail show ?thesis by blast
qed

theorem owner_withdraw_correct_witness:
  "(case withdraw 1 10 0
           (run 1 [Initialize 1, CreateCampaign 10 [] [] 1000, Donate 11 0 600, Donate 12 0 500]
              (genesis (\<lambda>_. 1000))) of
      Inl _ \<Rightarrow> False
    | Inr w' \<Rightarrow> treasury 1 w' = 0 \<and> coin_balance w' 10 = 2100
                \<and> get_campaign 1 0 w' = Inr (10, [], [], 1000, 1100, True, True))
   \<and> withdraw 1 11 0
        (run 1 [Initialize 1, CreateCampaign 10 [] [] 1000, Donate 11 0 600, Donate 12 0 500]
           (genesis (\<lambda>_. 1000)))
      = Inl (E_NOT_OWNER,
             run 1 [Initialize 1, CreateCampaign 10 [] [] 1000, Donate 11 0 600, Donate 12 0 500]
               (genesis (\<lambda>_. 1000)))
   \<and> withdraw 1 10 0
        (run 1 [Initialize 1, CreateCampaign 10 [] [] 1000, Donate 11 0 600] (genesis (\<lambda>_. 1000)))
      = Inl (E_GOAL_NOT_REACHED,
             run 1 [Initialize 1, CreateCampaign 10 [] [] 1000, Donate 11 0 600]
               (genesis (\<lambda>_. 1000)))
   \<and> withdraw 1 10 0
        (run 1 [Initialize 1, CreateCampaign 10 [] [] 1000, Donate 11 0 600, Donate 12 0 500,
                Withdraw 10 0] (genesis (\<lambda>_. 1000)))
      = Inl (E_ALREADY_WITHDRAWN,
             run 1 [Initialize 1, CreateCampaign 10 [] [] 1000, Donate 11 0 600, Donate 12 0 500,
                    Withdraw 10 0] (genesis (\<lambda>_. 1000)))"
proof -
  let ?g = "genesis (\<lambda>_. 1000)"
  let ?w1 = "run 1 [Initialize 1, CreateCampaign 10 [] [] 1000, Donate 11 0 600] ?g"
  let ?w2 = "run 1 [Initialize 1, CreateCampaign 10 [] [] 1000, Donate 11 0 600, Donate 12 0 500] ?g"
  let ?w3 = "run 1 [Initialize 1, CreateCampaign 10 [] [] 1000, Donate 11 0 600, Donate 12 0 500,
                    Withdraw 10 0] ?g"
  let ?c1 = "\<lparr>owner = 10, title = [], description = [], goal = 1000, donated = 600,
              completed = False, withdrawn = False\<rparr>"
  let ?c2 = "\<lparr>owner = 10, title = [], description = [], goal = 1000, donated = 1100,
              completed = True, withdrawn = False\<rparr>"
  let ?c3 = "\<lparr>owner = 10, title = [], description = [], goal = 1000, donated = 1100,
              completed = True, withdrawn = True\<rparr>"
  have s1: "campaign_store ?w1 1 = Some \<lparr>campaigns = [?c1], next_id = 1\<rparr>"
    by (simp add: eval_defs)
  have s2: "campaign_store ?w2 1 = Some \<lparr>campaigns = [?c2], next_id = 1\<rparr>"
    by (simp add: eval_defs)
  have s3: "campaign_store ?w3 1 = Some \<lparr>campaigns = [?c3], next_id = 1\<rparr>"
    by (simp add: eval_defs)
  have f2: "campaign_funds ?w2 1 = Some \<lparr>funds = 1100\<rparr>"
    by (simp add: eval_defs)
  have b2: "coin_balance ?w2 10 = 1000"
    by (simp add: eval_defs)
  have ok: "case withdraw 1 10 0 ?w2 of
      Inl _ \<Rightarrow> False
    | Inr w' \<Rightarrow> treasury 1 w' = 0 \<and> coin_balance w' 10 = 2100
                \<and> get_campaign 1 0 w' = Inr (10, [], [], 1000, 1100, True, True)"
    using owner_withdraw_correct [OF refl s2 _ refl, of 0 10] f2 b2
    by (simp add: treasury_def get_campaign_def)
  have no: "withdraw 1 11 0 ?w2 = Inl (E_NOT_OWNER, ?w2)"
    using owner_withdraw_correct [OF refl s2 _ refl, of 0 11] by simp
  have early: "withdraw 1 10 0 ?w1 = Inl (E_GOAL_NOT_REACHED, ?w1)"
    using owner_withdraw_correct [OF refl s1 _ refl, of 0 10] by simp
  have rep: "withdraw 1 10 0 ?w3 = Inl (E_ALREADY_WITHDRAWN, ?w3)"
    using owner_withdraw_correct [OF refl s3 _ refl, of 0 10] by simp
  from ok no early rep show ?thesis by blast
qed

text \<open>
  The claim as first stated fails on a campaign that the administrator has paid out
  before its goal was reached: withdrawn is true, and the owner's Withdraw aborts on the
  check of completed in line 120, before the check of withdrawn in line 121.
\<close>

theorem owner_withdraw_after_admin_withdraw:
  "get_campaign 1 0
     (run 1 [Initialize 1, CreateCampaign 10 [] [] 1000, Donate 11 0 600, AdminWithdraw 1 0]
        (genesis (\<lambda>_. 1000)))
     = Inr (10, [], [], 1000, 600, False, True)
   \<and> withdraw 1 10 0
        (run 1 [Initialize 1, CreateCampaign 10 [] [] 1000, Donate 11 0 600, AdminWithdraw 1 0]
           (genesis (\<lambda>_. 1000)))
     = Inl (E_GOAL_NOT_REACHED,
            run 1 [Initialize 1, CreateCampaign 10 [] [] 1000, Donate 11 0 600, AdminWithdraw 1 0]
              (genesis (\<lambda>_. 1000)))
   \<and> withdraw 1 10 0
        (run 1 [Initialize 1, CreateCampaign 10 [] [] 1000, Donate 11 0 600, AdminWithdraw 1 0]
           (genesis (\<lambda>_. 1000)))
     \<noteq> Inl (E_ALREADY_WITHDRAWN,
            run 1 [Initialize 1, CreateCampaign 10 [] [] 1000, Donate 11 0 600, AdminWithdraw 1 0]
              (genesis (\<lambda>_. 1000)))"
  by (simp add: eval_defs get_campaign_def)

lemma call_owner_fixed:
  assumes "campaign_at adm j w = Some c" "call adm x w = Inr v"
  shows "\<exists>d. campaign_at adm j v = Some d \<and> owner d = owner c"
  using assms
  by (cases x)
     (auto simp: call_Inr campaign_at_def Let_def nth_list_update nth_append
           split: option.splits if_splits)

lemma execute_owner_fixed:
  assumes "campaign_at adm j w = Some c"
  shows "\<exists>d. campaign_at adm j (execute adm x w) = Some d \<and> owner d = owner c"
  using execute_cases [of adm x w] call_owner_fixed [OF assms, of x "execute adm x w"] assms
  by auto

lemma run_owner_fixed:
  "campaign_at adm j w = Some c \<Longrightarrow>
   \<exists>d. campaign_at adm j (run adm xs w) = Some d \<and> owner d = owner c"
proof (induction xs arbitrary: w c)
  case Nil
  then show ?case by simp
next
  case (Cons x xs)
  from execute_owner_fixed [OF Cons.prems, of x] obtain c' where
    c': "campaign_at adm j (execute adm x w) = Some c'" "owner c' = owner c"
    by blast
  from Cons.IH [OF c'(1)] c'(2) show ?case by simp
qed

text \<open>
  Claim C3. AdminWithdraw aborts with \<open>E_NOT_OWNER\<close> for every caller other than the
  administrator, in any storage. Called by the administrator in a storage reached from
  publication, on an index in range: it aborts with \<open>E_ALREADY_WITHDRAWN\<close> when the
  campaign is withdrawn, and otherwise returns, whether the campaign is completed or not;
  the treasury loses the donated amount, the balance of the campaign's owner (not of the
  caller) gains it, the withdrawn flag is set and nothing else changes. The owner of a
  campaign is the one it was created with: no transaction changes it.
\<close>

theorem admin_withdraw_correct:
  assumes w: "w = run adm cs (genesis b)"
  shows "(caller \<noteq> adm \<longrightarrow> admin_withdraw adm caller i v = Inl (E_NOT_OWNER, v))
       \<and> (\<forall>st c. campaign_store w adm = Some st \<and> unat i < length (campaigns st)
                \<and> c = campaigns st ! unat i \<longrightarrow>
            (withdrawn c \<longrightarrow> admin_withdraw adm adm i w = Inl (E_ALREADY_WITHDRAWN, w))
            \<and> (\<not> withdrawn c \<longrightarrow>
                 (\<exists>f. campaign_funds w adm = Some f \<and> unat (donated c) \<le> funds f
                    \<and> admin_withdraw adm adm i w =
                        Inr (w\<lparr>campaign_funds := (campaign_funds w)(adm \<mapsto>
                                  f\<lparr>funds := funds f - unat (donated c)\<rparr>),
                               coin_balance := (coin_balance w)(owner c :=
                                  coin_balance w (owner c) + unat (donated c)),
                               campaign_store := (campaign_store w)(adm \<mapsto> st\<lparr>campaigns :=
                                  (campaigns st)[unat i := c\<lparr>withdrawn := True\<rparr>]\<rparr>)\<rparr>))))
       \<and> (campaign_at adm k u = Some p \<longrightarrow>
            (\<exists>q. campaign_at adm k (run adm xs u) = Some q \<and> owner q = owner p))"
proof -
  have sol: "solvent adm w"
    unfolding w by (rule run_solvent [OF genesis_solvent])
  have fixed: "campaign_at adm k u = Some p \<longrightarrow>
            (\<exists>q. campaign_at adm k (run adm xs u) = Some q \<and> owner q = owner p)"
    using run_owner_fixed by blast
  have no: "caller \<noteq> adm \<longrightarrow> admin_withdraw adm caller i v = Inl (E_NOT_OWNER, v)"
    by (simp add: admin_withdraw_def)
  have rep: "admin_withdraw adm adm i w = Inl (E_ALREADY_WITHDRAWN, w)"
    if "campaign_store w adm = Some st" "unat i < length (campaigns st)"
       "withdrawn (campaigns st ! unat i)" for st
    using that by (simp add: admin_withdraw_def)
  have ok: "\<exists>f. campaign_funds w adm = Some f \<and> unat (donated c) \<le> funds f
                    \<and> admin_withdraw adm adm i w =
                        Inr (w\<lparr>campaign_funds := (campaign_funds w)(adm \<mapsto>
                                  f\<lparr>funds := funds f - unat (donated c)\<rparr>),
                               coin_balance := (coin_balance w)(owner c :=
                                  coin_balance w (owner c) + unat (donated c)),
                               campaign_store := (campaign_store w)(adm \<mapsto> st\<lparr>campaigns :=
                                  (campaigns st)[unat i := c\<lparr>withdrawn := True\<rparr>]\<rparr>)\<rparr>)"
    if st: "campaign_store w adm = Some st" and i: "unat i < length (campaigns st)"
      and c: "c = campaigns st ! unat i" and nw: "\<not> withdrawn c" for st c
  proof -
    from solvent_covers [OF sol st i] nw c obtain f where
      f: "campaign_funds w adm = Some f" "unat (donated c) \<le> funds f"
      by auto
    with st i c nw show ?thesis
      by (simp add: admin_withdraw_Inr)
  qed
  from no rep ok fixed show ?thesis by blast
qed

theorem admin_withdraw_correct_witness:
  "(case admin_withdraw 1 1 0
           (run 1 [Initialize 1, CreateCampaign 10 [] [] 1000, Donate 11 0 600]
              (genesis (\<lambda>_. 1000))) of
      Inl _ \<Rightarrow> False
    | Inr w' \<Rightarrow> treasury 1 w' = 0 \<and> coin_balance w' 10 = 1600 \<and> coin_balance w' 1 = 1000
                \<and> get_campaign 1 0 w' = Inr (10, [], [], 1000, 600, False, True))
   \<and> admin_withdraw 1 10 0
        (run 1 [Initialize 1, CreateCampaign 10 [] [] 1000, Donate 11 0 600] (genesis (\<lambda>_. 1000)))
      = Inl (E_NOT_OWNER,
             run 1 [Initialize 1, CreateCampaign 10 [] [] 1000, Donate 11 0 600]
               (genesis (\<lambda>_. 1000)))
   \<and> admin_withdraw 1 1 0
        (run 1 [Initialize 1, CreateCampaign 10 [] [] 1000, Donate 11 0 600, AdminWithdraw 1 0]
           (genesis (\<lambda>_. 1000)))
      = Inl (E_ALREADY_WITHDRAWN,
             run 1 [Initialize 1, CreateCampaign 10 [] [] 1000, Donate 11 0 600, AdminWithdraw 1 0]
               (genesis (\<lambda>_. 1000)))
   \<and> (\<exists>q. campaign_at 1 0
              (run 1 [Donate 12 0 400, Withdraw 10 0]
                 (run 1 [Initialize 1, CreateCampaign 10 [] [] 1000, Donate 11 0 600]
                    (genesis (\<lambda>_. 1000)))) = Some q
          \<and> owner q = 10)"
proof -
  let ?g = "genesis (\<lambda>_. 1000)"
  let ?w1 = "run 1 [Initialize 1, CreateCampaign 10 [] [] 1000, Donate 11 0 600] ?g"
  let ?w2 = "run 1 [Initialize 1, CreateCampaign 10 [] [] 1000, Donate 11 0 600, AdminWithdraw 1 0] ?g"
  let ?c1 = "\<lparr>owner = 10, title = [], description = [], goal = 1000, donated = 600,
              completed = False, withdrawn = False\<rparr>"
  let ?c2 = "\<lparr>owner = 10, title = [], description = [], goal = 1000, donated = 600,
              completed = False, withdrawn = True\<rparr>"
  have s1: "campaign_store ?w1 1 = Some \<lparr>campaigns = [?c1], next_id = 1\<rparr>"
    by (simp add: eval_defs)
  have s2: "campaign_store ?w2 1 = Some \<lparr>campaigns = [?c2], next_id = 1\<rparr>"
    by (simp add: eval_defs)
  have f1: "campaign_funds ?w1 1 = Some \<lparr>funds = 600\<rparr>"
    by (simp add: eval_defs)
  have b1: "coin_balance ?w1 10 = 1000" "coin_balance ?w1 1 = 1000"
    by (simp_all add: eval_defs)
  have ne: "(10 :: address) \<noteq> 1" by simp
  have ok: "case admin_withdraw 1 1 0 ?w1 of
      Inl _ \<Rightarrow> False
    | Inr w' \<Rightarrow> treasury 1 w' = 0 \<and> coin_balance w' 10 = 1600 \<and> coin_balance w' 1 = 1000
                \<and> get_campaign 1 0 w' = Inr (10, [], [], 1000, 600, False, True)"
    using admin_withdraw_correct [where adm = 1 and caller = 1 and i = 0 and w = ?w1, OF refl]
      s1 f1 b1
    by (simp add: treasury_def get_campaign_def)
  have no: "admin_withdraw 1 10 0 ?w1 = Inl (E_NOT_OWNER, ?w1)"
    using ne admin_withdraw_correct [where adm = 1 and caller = 10 and i = 0 and w = ?w1
        and v = ?w1, OF refl]
    by simp
  have rep: "admin_withdraw 1 1 0 ?w2 = Inl (E_ALREADY_WITHDRAWN, ?w2)"
    using admin_withdraw_correct [where adm = 1 and caller = 1 and i = 0 and w = ?w2, OF refl] s2
    by simp
  have at: "campaign_at 1 0 ?w1 = Some ?c1"
    by (simp add: eval_defs campaign_at_def)
  have own: "\<exists>q. campaign_at 1 0 (run 1 [Donate 12 0 400, Withdraw 10 0] ?w1) = Some q
               \<and> owner q = 10"
    using admin_withdraw_correct [where adm = 1 and w = ?w1 and k = 0 and u = ?w1 and p = ?c1
        and xs = "[Donate 12 0 400, Withdraw 10 0]", OF refl, THEN conjunct2, THEN conjunct2] at
    by simp
  from ok no rep own show ?thesis by blast
qed

subsection \<open>The creation counter\<close>

lemma call_keeps_counter:
  assumes "campaign_store w a = Some st0" "\<not> is_create_campaign c" "call adm c w = Inr w'"
  shows "\<exists>st1. campaign_store w' a = Some st1 \<and> next_id st1 = next_id st0
           \<and> length (campaigns st1) = length (campaigns st0)"
  using assms
  by (cases c) (auto simp: call_Inr Let_def split: if_splits)

lemma execute_keeps_counter:
  assumes "campaign_store w a = Some st0" "\<not> is_create_campaign c"
  shows "\<exists>st1. campaign_store (execute adm c w) a = Some st1 \<and> next_id st1 = next_id st0
           \<and> length (campaigns st1) = length (campaigns st0)"
  using execute_cases [of adm c w] call_keeps_counter [OF assms, of adm "execute adm c w"] assms(1)
  by auto


text \<open>
  Claim C10. In every storage reached from publication by any transactions, the counter
  of a published registry is the number of its campaigns. Initialize publishes the
  registry with counter 0 and no campaign; a transaction that is not a CreateCampaign
  leaves the counter and the number of campaigns of every published registry as they
  were; a CreateCampaign that returns adds one to each.
\<close>

theorem counter_is_length:
  "(campaign_store (run adm cs (genesis b)) a = Some st \<longrightarrow>
      unat (next_id st) = length (campaigns st))
   \<and> (campaign_store w a = None \<longrightarrow>
        campaign_store (execute adm (Initialize a) w) a = Some \<lparr>campaigns = [], next_id = 0\<rparr>)
   \<and> (campaign_store w a = Some sa \<and> \<not> is_create_campaign c \<longrightarrow>
        (\<exists>sb. campaign_store (execute adm c w) a = Some sb \<and> next_id sb = next_id sa
           \<and> length (campaigns sb) = length (campaigns sa)))
   \<and> (create_campaign adm x t d g w = Inr w' \<longrightarrow>
        (\<exists>sa sb. campaign_store w adm = Some sa \<and> campaign_store w' adm = Some sb
           \<and> unat (next_id sb) = unat (next_id sa) + 1
           \<and> length (campaigns sb) = length (campaigns sa) + 1))"
proof -
  have inv: "counter_ok a (run adm cs (genesis b))"
    by (rule run_counter_ok [OF genesis_counter_ok])
  have reach: "campaign_store (run adm cs (genesis b)) a = Some st \<longrightarrow>
      unat (next_id st) = length (campaigns st)"
    using inv by (auto simp: counter_ok_def)
  have init: "campaign_store w a = None \<longrightarrow>
        campaign_store (execute adm (Initialize a) w) a = Some \<lparr>campaigns = [], next_id = 0\<rparr>"
    by (simp add: execute_def initialize_def Let_def)
  have keep: "campaign_store w a = Some sa \<and> \<not> is_create_campaign c \<longrightarrow>
        (\<exists>sb. campaign_store (execute adm c w) a = Some sb \<and> next_id sb = next_id sa
           \<and> length (campaigns sb) = length (campaigns sa))"
    using execute_keeps_counter [of w a sa c adm] by blast
  have create: "create_campaign adm x t d g w = Inr w' \<longrightarrow>
        (\<exists>sa sb. campaign_store w adm = Some sa \<and> campaign_store w' adm = Some sb
           \<and> unat (next_id sb) = unat (next_id sa) + 1
           \<and> length (campaigns sb) = length (campaigns sa) + 1)"
    by (auto simp: create_campaign_Inr u64_succ)
  from reach init keep create show ?thesis by blast
qed

theorem counter_is_length_witness:
  "campaign_store (run 1 [Initialize 1, CreateCampaign 10 [] [] 1000, CreateCampaign 11 [] [] 5,
                          Donate 12 1 7] (genesis (\<lambda>_. 100))) 1
     = Some \<lparr>campaigns =
               [\<lparr>owner = 10, title = [], description = [], goal = 1000, donated = 0,
                 completed = False, withdrawn = False\<rparr>,
                \<lparr>owner = 11, title = [], description = [], goal = 5, donated = 7,
                 completed = True, withdrawn = False\<rparr>],
             next_id = 2\<rparr>
   \<and> unat (2 :: u64) = length
        [\<lparr>owner = 10, title = [], description = [], goal = 1000, donated = 0,
          completed = False, withdrawn = False\<rparr>,
         \<lparr>owner = 11, title = [], description = [], goal = 5, donated = (7 :: u64),
          completed = True, withdrawn = False\<rparr>]
   \<and> campaign_store (execute 1 (Initialize 1) (genesis (\<lambda>_. 100))) 1
        = Some \<lparr>campaigns = [], next_id = 0\<rparr>
   \<and> (\<exists>sb. campaign_store (execute 1 (Donate 12 0 7)
                 (run 1 [Initialize 1, CreateCampaign 10 [] [] 1000] (genesis (\<lambda>_. 100)))) 1
               = Some sb \<and> next_id sb = 1 \<and> length (campaigns sb) = 1)
   \<and> (\<exists>sb. campaign_store (execute 1 (CreateCampaign 11 [] [] 5)
                 (run 1 [Initialize 1, CreateCampaign 10 [] [] 1000] (genesis (\<lambda>_. 100)))) 1
               = Some sb \<and> unat (next_id sb) = 2 \<and> length (campaigns sb) = 2)"
proof -
  let ?g = "genesis (\<lambda>_. 100)"
  let ?c0 = "\<lparr>owner = 10, title = [], description = [], goal = 1000, donated = 0,
              completed = False, withdrawn = False\<rparr>"
  let ?c1 = "\<lparr>owner = 11, title = [], description = [], goal = 5, donated = 7,
              completed = True, withdrawn = False\<rparr>"
  let ?w1 = "run 1 [Initialize 1, CreateCampaign 10 [] [] 1000] ?g"
  let ?w2 = "run 1 [Initialize 1, CreateCampaign 10 [] [] 1000, CreateCampaign 11 [] [] 5,
                    Donate 12 1 7] ?g"
  let ?w3 = "execute 1 (CreateCampaign 11 [] [] 5) ?w1"
  have g: "campaign_store ?g 1 = None"
    by (simp add: genesis_def)
  have sb: "campaign_store ?w1 1 = Some \<lparr>campaigns = [?c0], next_id = 1\<rparr>"
    by (simp add: eval_defs)
  have s2: "campaign_store ?w2 1 = Some \<lparr>campaigns = [?c0, ?c1], next_id = 2\<rparr>"
    by (simp add: eval_defs)
  have cr: "create_campaign 1 11 [] [] 5 ?w1 = Inr ?w3"
    by (simp add: eval_defs)
  have nc: "\<not> is_create_campaign (Donate 12 0 7)"
    by simp
  note A = counter_is_length [where adm = 1 and cs = "[Initialize 1, CreateCampaign 10 [] [] 1000,
      CreateCampaign 11 [] [] 5, Donate 12 1 7]" and b = "\<lambda>_. 100" and a = 1
      and st = "\<lparr>campaigns = [?c0, ?c1], next_id = 2\<rparr>" and w = ?g]
  note B = counter_is_length [where adm = 1 and a = 1 and w = ?w1 and c = "Donate 12 0 7"
      and sa = "\<lparr>campaigns = [?c0], next_id = 1\<rparr>" and x = 11 and t = "[]" and d = "[]"
      and g = 5 and w' = ?w3]
  have a1: "unat (2 :: u64) = length [?c0, ?c1]"
    using A s2 by simp
  have a2: "campaign_store (execute 1 (Initialize 1) ?g) 1 = Some \<lparr>campaigns = [], next_id = 0\<rparr>"
    using A g by blast
  have b1: "\<exists>sb. campaign_store (execute 1 (Donate 12 0 7) ?w1) 1 = Some sb
              \<and> next_id sb = 1 \<and> length (campaigns sb) = 1"
    using B sb nc by simp
  have b2: "\<exists>sb. campaign_store ?w3 1 = Some sb \<and> unat (next_id sb) = 2
              \<and> length (campaigns sb) = 2"
    using B [THEN conjunct2, THEN conjunct2, THEN conjunct2] sb cr
    by (simp add: numeral_2_eq_2)
  from s2 a1 a2 b1 b2 show ?thesis by blast
qed

subsection \<open>The withdrawn flag\<close>

lemma call_withdrawn_mono:
  assumes "campaign_at adm j w = Some c" "withdrawn c" "call adm x w = Inr w'"
  shows "\<exists>c'. campaign_at adm j w' = Some c' \<and> withdrawn c'"
  using assms
  by (cases x)
     (auto simp: call_Inr campaign_at_def Let_def nth_list_update nth_append
           split: option.splits if_splits)

lemma execute_withdrawn_mono:
  assumes "campaign_at adm j w = Some c" "withdrawn c"
  shows "\<exists>c'. campaign_at adm j (execute adm x w) = Some c' \<and> withdrawn c'"
  using execute_cases [of adm x w] call_withdrawn_mono [OF assms, of x "execute adm x w"] assms
  by auto

lemma run_withdrawn_mono:
  "campaign_at adm j w = Some c \<Longrightarrow> withdrawn c \<Longrightarrow>
   \<exists>c'. campaign_at adm j (run adm cs w) = Some c' \<and> withdrawn c'"
proof (induction cs arbitrary: w c)
  case Nil
  then show ?case by simp
next
  case (Cons x cs)
  from execute_withdrawn_mono [OF Cons.prems, of x] obtain c' where
    "campaign_at adm j (execute adm x w) = Some c'" "withdrawn c'"
    by blast
  from Cons.IH [OF this] show ?case by simp
qed

lemma call_paid_when_completed:
  assumes "paid_when_completed adm j w" "\<not> admin_withdraw_on j x" "call adm x w = Inr w'"
  shows "paid_when_completed adm j w'"
  using assms
  by (cases x)
     (auto simp: call_Inr campaign_at_def paid_when_completed_def Let_def nth_list_update
             nth_append
           split: option.splits if_splits)

lemma execute_paid_when_completed:
  assumes "paid_when_completed adm j w" "\<not> admin_withdraw_on j x"
  shows "paid_when_completed adm j (execute adm x w)"
  using execute_cases [of adm x w] call_paid_when_completed [OF assms, of "execute adm x w"] assms
  by auto

lemma run_paid_when_completed:
  "paid_when_completed adm j w \<Longrightarrow> \<forall>x \<in> set cs. \<not> admin_withdraw_on j x \<Longrightarrow>
   paid_when_completed adm j (run adm cs w)"
  by (induction cs arbitrary: w) (simp_all add: execute_paid_when_completed)

lemma payout_needs_unwithdrawn:
  assumes "withdraw adm a i w = Inr w' \<or> admin_withdraw adm a i w = Inr w'"
  shows "\<exists>c c'. campaign_at adm (unat i) w = Some c \<and> \<not> withdrawn c
           \<and> campaign_at adm (unat i) w' = Some c' \<and> withdrawn c'"
  using assms
  by (auto simp: withdraw_Inr admin_withdraw_Inr campaign_at_def)

text \<open>
  Claim C1, as the code has it. A transaction that is not an AdminWithdraw on the campaign
  at position \<open>j\<close> keeps "withdrawn implies completed" for that campaign, so this holds
  in every storage reached from publication without an AdminWithdraw on \<open>j\<close>;
  AdminWithdraw is left out, since it pays out campaigns that are not completed. The
  withdrawn flag, once set, stays set through every later transaction, and Withdraw and
  AdminWithdraw return only on a campaign whose flag is not set and set it: the flag goes
  from false to true at most once.
\<close>

theorem withdrawn_flag:
  "(paid_when_completed adm j w \<and> \<not> admin_withdraw_on j x \<longrightarrow>
      paid_when_completed adm j (execute adm x w))
   \<and> ((\<forall>y \<in> set cs. \<not> admin_withdraw_on j y) \<longrightarrow>
        paid_when_completed adm j (run adm cs (genesis b)))
   \<and> (campaign_at adm j w = Some c \<and> withdrawn c \<longrightarrow>
        (\<exists>d. campaign_at adm j (run adm cs w) = Some d \<and> withdrawn d))
   \<and> (withdraw adm a i w = Inr v \<or> admin_withdraw adm a i w = Inr v \<longrightarrow>
        (\<exists>c d. campaign_at adm (unat i) w = Some c \<and> \<not> withdrawn c
           \<and> campaign_at adm (unat i) v = Some d \<and> withdrawn d))"
proof -
  have g: "paid_when_completed adm j (genesis b)"
    by (simp add: paid_when_completed_def campaign_at_def genesis_def)
  have step: "paid_when_completed adm j w \<and> \<not> admin_withdraw_on j x \<longrightarrow>
      paid_when_completed adm j (execute adm x w)"
    using execute_paid_when_completed by blast
  have reach: "(\<forall>y \<in> set cs. \<not> admin_withdraw_on j y) \<longrightarrow>
        paid_when_completed adm j (run adm cs (genesis b))"
    using run_paid_when_completed [OF g] by blast
  have mono: "campaign_at adm j w = Some c \<and> withdrawn c \<longrightarrow>
        (\<exists>d. campaign_at adm j (run adm cs w) = Some d \<and> withdrawn d)"
    using run_withdrawn_mono by blast
  have once: "withdraw adm a i w = Inr v \<or> admin_withdraw adm a i w = Inr v \<longrightarrow>
        (\<exists>c d. campaign_at adm (unat i) w = Some c \<and> \<not> withdrawn c
           \<and> campaign_at adm (unat i) v = Some d \<and> withdrawn d)"
    using payout_needs_unwithdrawn by blast
  from step reach mono once show ?thesis by blast
qed

theorem withdrawn_flag_witness:
  "get_campaign 1 0 (run 1 [Initialize 1, CreateCampaign 10 [] [] 1000, Donate 11 0 600,
                            Donate 12 0 500, Withdraw 10 0] (genesis (\<lambda>_. 1000)))
     = Inr (10, [], [], 1000, 1100, True, True)
   \<and> paid_when_completed 1 0
        (run 1 [Initialize 1, CreateCampaign 10 [] [] 1000, Donate 11 0 600,
                Donate 12 0 500, Withdraw 10 0] (genesis (\<lambda>_. 1000)))
   \<and> paid_when_completed 1 0
        (execute 1 (Withdraw 10 0)
           (run 1 [Initialize 1, CreateCampaign 10 [] [] 1000, Donate 11 0 600,
                   Donate 12 0 500] (genesis (\<lambda>_. 1000))))
   \<and> (\<exists>d. campaign_at 1 0
              (run 1 [AdminWithdraw 1 0, Withdraw 10 0, Donate 11 0 5]
                 (run 1 [Initialize 1, CreateCampaign 10 [] [] 1000, Donate 11 0 600,
                         Donate 12 0 500, Withdraw 10 0] (genesis (\<lambda>_. 1000)))) = Some d
            \<and> withdrawn d)
   \<and> (\<exists>c d. campaign_at 1 (unat (0 :: u64))
                (run 1 [Initialize 1, CreateCampaign 10 [] [] 1000, Donate 11 0 600,
                        Donate 12 0 500] (genesis (\<lambda>_. 1000))) = Some c
            \<and> \<not> withdrawn c
            \<and> campaign_at 1 (unat (0 :: u64))
                (run 1 [Initialize 1, CreateCampaign 10 [] [] 1000, Donate 11 0 600,
                        Donate 12 0 500, Withdraw 10 0] (genesis (\<lambda>_. 1000))) = Some d
            \<and> withdrawn d)"
proof -
  let ?g = "genesis (\<lambda>_. 1000)"
  let ?cs = "[Initialize 1, CreateCampaign 10 [] [] 1000, Donate 11 0 600, Donate 12 0 500]"
  let ?cs' = "[Initialize 1, CreateCampaign 10 [] [] 1000, Donate 11 0 600, Donate 12 0 500,
               Withdraw 10 0]"
  let ?w = "run 1 ?cs ?g"
  let ?v = "run 1 ?cs' ?g"
  let ?c = "\<lparr>owner = 10, title = [], description = [], goal = 1000, donated = 1100,
             completed = True, withdrawn = False\<rparr>"
  let ?d = "\<lparr>owner = 10, title = [], description = [], goal = 1000, donated = 1100,
             completed = True, withdrawn = True\<rparr>"
  have obs: "get_campaign 1 0 ?v = Inr (10, [], [], 1000, 1100, True, True)"
    by (simp add: eval_defs get_campaign_def)
  have no: "\<forall>y \<in> set ?cs'. \<not> admin_withdraw_on 0 y" "\<forall>y \<in> set ?cs. \<not> admin_withdraw_on 0 y"
    "\<not> admin_withdraw_on 0 (Withdraw 10 0)"
    by simp_all
  have at_w: "campaign_at 1 0 ?w = Some ?c"
    by (simp add: eval_defs campaign_at_def)
  have at_v: "campaign_at 1 0 ?v = Some ?d"
    by (simp add: eval_defs campaign_at_def)
  have wd: "withdrawn ?d"
    by simp
  have ok: "withdraw 1 10 0 ?w = Inr ?v"
    by (simp add: eval_defs)
  have r1: "paid_when_completed 1 0 ?v"
    using withdrawn_flag [where adm = 1 and j = 0 and cs = ?cs' and b = "\<lambda>_. 1000"] no(1)
    by blast
  have r0: "paid_when_completed 1 0 ?w"
    using withdrawn_flag [where adm = 1 and j = 0 and cs = ?cs and b = "\<lambda>_. 1000"] no(2)
    by blast
  have r2: "paid_when_completed 1 0 (execute 1 (Withdraw 10 0) ?w)"
    using withdrawn_flag [where adm = 1 and j = 0 and w = ?w and x = "Withdraw 10 0"] r0 no(3)
    by blast
  have r3: "\<exists>d. campaign_at 1 0 (run 1 [AdminWithdraw 1 0, Withdraw 10 0, Donate 11 0 5] ?v)
              = Some d \<and> withdrawn d"
    using withdrawn_flag [where adm = 1 and j = 0 and w = ?v and c = ?d
        and cs = "[AdminWithdraw 1 0, Withdraw 10 0, Donate 11 0 5]"] at_v wd
    by blast
  have r4: "\<exists>c d. campaign_at 1 (unat (0 :: u64)) ?w = Some c \<and> \<not> withdrawn c
              \<and> campaign_at 1 (unat (0 :: u64)) ?v = Some d \<and> withdrawn d"
    using withdrawn_flag [where adm = 1 and a = 10 and i = 0 and w = ?w and v = ?v] ok
    by blast
  from obs r1 r2 r3 r4 show ?thesis by blast
qed


text \<open>
  The claim as first stated fails after an AdminWithdraw on a campaign that has received
  600 of its goal of 1000: the campaign is withdrawn and not completed.
\<close>

theorem withdrawn_without_completed:
  "get_campaign 1 0
     (run 1 [Initialize 1, CreateCampaign 10 [] [] 1000, Donate 11 0 600, AdminWithdraw 1 0]
        (genesis (\<lambda>_. 1000)))
   = Inr (10, [], [], 1000, 600, False, True)
   \<and> \<not> paid_when_completed 1 0
        (run 1 [Initialize 1, CreateCampaign 10 [] [] 1000, Donate 11 0 600, AdminWithdraw 1 0]
           (genesis (\<lambda>_. 1000)))"
  by (simp add: eval_defs get_campaign_def paid_when_completed_def campaign_at_def)

subsection \<open>Sequences of donations\<close>

lemma donate_at:
  assumes "donate adm donor i n w = Inr v" "campaign_at adm (unat i) w = Some c"
  shows "\<exists>d. campaign_at adm (unat i) v = Some d
           \<and> unat (donated d) = unat (donated c) + unat n
           \<and> goal d = goal c
           \<and> \<not> completed c
           \<and> (completed d \<longleftrightarrow> goal c \<le> donated d)"
proof -
  from assms(1) obtain st f where
    st: "campaign_store w adm = Some st" and i: "unat i < length (campaigns st)"
    and opn: "\<not> completed (campaigns st ! unat i)"
    and ov: "unat (donated (campaigns st ! unat i)) + unat n < 2 ^ 64"
    and v: "campaign_store v adm = Some (st\<lparr>campaigns := (campaigns st)[unat i :=
              (if goal (campaigns st ! unat i) \<le> donated (campaigns st ! unat i) + n
               then (campaigns st ! unat i)
                      \<lparr>donated := donated (campaigns st ! unat i) + n, completed := True\<rparr>
               else (campaigns st ! unat i)
                      \<lparr>donated := donated (campaigns st ! unat i) + n\<rparr>)]\<rparr>)"
    unfolding donate_Inr by auto
  from assms(2) st i have c: "c = campaigns st ! unat i"
    by (simp add: campaign_at_def)
  show ?thesis
  proof (cases "goal c \<le> donated c + n")
    case True
    with v i c opn ov show ?thesis
      by (simp add: campaign_at_def u64_add)
  next
    case False
    with v i c opn ov show ?thesis
      by (simp add: campaign_at_def u64_add)
  qed
qed

lemma execute_donate_failed:
  "donate adm donor i n w = Inl e \<Longrightarrow> execute adm (Donate donor i n) w = w"
  by (simp add: execute_def)

lemma execute_donate_returned:
  "donate adm donor i n w = Inr v \<Longrightarrow> execute adm (Donate donor i n) w = v"
  by (simp add: execute_def)

lemma donate_completed_aborts:
  "campaign_at adm (unat i) w = Some c \<Longrightarrow> completed c \<Longrightarrow>
   \<exists>e. donate adm donor i n w = Inl e"
  by (auto simp: donate_def campaign_at_def split: option.splits if_splits)

lemma donation_sequence:
  "campaign_at adm (unat i) w = Some c \<Longrightarrow>
   \<exists>d. campaign_at adm (unat i) (run adm (donations i ds) w) = Some d
     \<and> unat (donated d) = unat (donated c) + sum_list (map unat (accepted adm i ds w))
     \<and> goal d = goal c
     \<and> (completed c \<longrightarrow> completed d \<and> accepted adm i ds w = [])
     \<and> (\<not> completed c \<longrightarrow>
          (completed d \<longleftrightarrow> accepted adm i ds w \<noteq> [] \<and> goal c \<le> donated d))"
proof (induction ds arbitrary: w c)
  case Nil
  then show ?case by (simp add: donations_def)
next
  case (Cons p ds)
  obtain donor n where p: "p = (donor, n)" by (cases p)
  show ?case
  proof (cases "donate adm donor i n w")
    case (Inl e)
    then have same: "execute adm (Donate donor i n) w = w"
      by (rule execute_donate_failed)
    from Cons.IH [OF Cons.prems] obtain d where
      "campaign_at adm (unat i) (run adm (donations i ds) w) = Some d"
      "unat (donated d) = unat (donated c) + sum_list (map unat (accepted adm i ds w))"
      "goal d = goal c"
      "completed c \<longrightarrow> completed d \<and> accepted adm i ds w = []"
      "\<not> completed c \<longrightarrow>
          (completed d \<longleftrightarrow> accepted adm i ds w \<noteq> [] \<and> goal c \<le> donated d)"
      by blast
    then show ?thesis
      using p Inl same by (simp add: donations_def)
  next
    case (Inr v)
    then have ex: "execute adm (Donate donor i n) w = v"
      by (rule execute_donate_returned)
    from donate_at [OF Inr Cons.prems] obtain c1 where
      c1: "campaign_at adm (unat i) v = Some c1"
      and sum1: "unat (donated c1) = unat (donated c) + unat n"
      and goal1: "goal c1 = goal c"
      and open0: "\<not> completed c"
      and done1: "completed c1 \<longleftrightarrow> goal c \<le> donated c1"
      by blast
    from Cons.IH [OF c1] obtain d where
      d: "campaign_at adm (unat i) (run adm (donations i ds) v) = Some d"
      and sumd: "unat (donated d) = unat (donated c1) + sum_list (map unat (accepted adm i ds v))"
      and goald: "goal d = goal c1"
      and stay: "completed c1 \<longrightarrow> completed d \<and> accepted adm i ds v = []"
      and flip: "\<not> completed c1 \<longrightarrow>
          (completed d \<longleftrightarrow> accepted adm i ds v \<noteq> [] \<and> goal c1 \<le> donated d)"
      by blast
    have acc: "accepted adm i (p # ds) w = n # accepted adm i ds v"
      using p Inr by simp
    have runs: "run adm (donations i (p # ds)) w = run adm (donations i ds) v"
      using p ex by (simp add: donations_def)
    have total: "unat (donated d) = unat (donated c) + sum_list (map unat (accepted adm i (p # ds) w))"
      using sumd sum1 acc by simp
    have compl: "completed d \<longleftrightarrow> goal c \<le> donated d"
    proof (cases "completed c1")
      case True
      with stay sumd have "unat (donated d) = unat (donated c1)" by simp
      then have "donated d = donated c1" by (simp add: word_unat_eq_iff)
      with True stay done1 show ?thesis by simp
    next
      case False
      show ?thesis
      proof (cases "accepted adm i ds v = []")
        case True
        with sumd have "unat (donated d) = unat (donated c1)" by simp
        then have "donated d = donated c1" by (simp add: word_unat_eq_iff)
        with False flip True done1 show ?thesis by simp
      next
        case nonempty: False
        with False flip goal1 show ?thesis by simp
      qed
    qed
    show ?thesis
      using d goald goal1 total compl open0 acc runs by simp
  qed
qed

text \<open>
  Claim C4. Take a campaign at an index in range and any sequence of Donate calls on it,
  each one either applied or, when it aborts, leaving the storage as it was. Afterwards the
  campaign's donated amount is what it was before (zero for a new campaign) plus the sum
  of the amounts of the calls that did not abort; nothing is cut off at the goal. A call
  that returns finds the campaign not completed and leaves it completed exactly when
  donated has reached the goal; so a campaign that was not completed is completed after
  the sequence exactly when some call returned and donated has reached the goal, and a
  completed campaign stays completed and receives nothing more.
\<close>

theorem donations_accumulate:
  assumes "campaign_at adm (unat i) w = Some c"
  shows "(\<exists>d. campaign_at adm (unat i) (run adm (donations i ds) w) = Some d
            \<and> unat (donated d) = unat (donated c) + sum_list (map unat (accepted adm i ds w))
            \<and> goal d = goal c
            \<and> (completed c \<longrightarrow> completed d \<and> accepted adm i ds w = [])
            \<and> (\<not> completed c \<longrightarrow>
                 (completed d \<longleftrightarrow> accepted adm i ds w \<noteq> [] \<and> goal c \<le> donated d)))
       \<and> (donate adm donor i n w = Inr v \<longrightarrow>
            (\<exists>d. campaign_at adm (unat i) v = Some d
               \<and> unat (donated d) = unat (donated c) + unat n
               \<and> goal d = goal c
               \<and> \<not> completed c
               \<and> (completed d \<longleftrightarrow> goal c \<le> donated d)))"
  using donation_sequence [OF assms, of ds] donate_at [OF _ assms, of donor n v]
  by blast

theorem donations_accumulate_witness:
  "accepted 1 0 [(11, 600), (12, 500), (13, 50)]
     (run 1 [Initialize 1, CreateCampaign 10 [] [] 1000] (genesis (\<lambda>_. 1000))) = [600, 500]
   \<and> (\<exists>d. campaign_at 1 0
              (run 1 (donations 0 [(11, 600), (12, 500), (13, 50)])
                 (run 1 [Initialize 1, CreateCampaign 10 [] [] 1000] (genesis (\<lambda>_. 1000))))
            = Some d
          \<and> unat (donated d) = 1100 \<and> goal d = 1000 \<and> completed d)
   \<and> (\<exists>d. campaign_at 1 0
              (execute 1 (Donate 11 0 600)
                 (run 1 [Initialize 1, CreateCampaign 10 [] [] 1000] (genesis (\<lambda>_. 1000))))
            = Some d
          \<and> unat (donated d) = 600 \<and> \<not> completed d)"
proof -
  let ?w = "run 1 [Initialize 1, CreateCampaign 10 [] [] 1000] (genesis (\<lambda>_. 1000))"
  let ?ds = "[(11, 600), (12, 500), (13, 50)] :: (address \<times> u64) list"
  let ?c = "\<lparr>owner = 10, title = [], description = [], goal = 1000, donated = 0,
             completed = False, withdrawn = False\<rparr>"
  have at: "campaign_at 1 (unat (0 :: u64)) ?w = Some ?c"
    by (simp add: eval_defs campaign_at_def)
  have acc: "accepted 1 0 ?ds ?w = [600, 500]"
    by (simp add: eval_defs)
  have one: "donate 1 11 0 600 ?w = Inr (execute 1 (Donate 11 0 600) ?w)"
    by (simp add: eval_defs)
  note T = donations_accumulate [OF at, where ds = ?ds and donor = 11 and n = 600
      and v = "execute 1 (Donate 11 0 600) ?w"]
  have seq: "\<exists>d. campaign_at 1 0 (run 1 (donations 0 ?ds) ?w) = Some d
          \<and> unat (donated d) = 1100 \<and> goal d = 1000 \<and> completed d"
  proof -
    from T [THEN conjunct1] acc obtain d where
      d: "campaign_at 1 (unat (0 :: u64)) (run 1 (donations 0 ?ds) ?w) = Some d"
      and s: "unat (donated d) = 1100" and g: "goal d = 1000"
      and c: "completed d \<longleftrightarrow> (1000 :: u64) \<le> donated d"
      by auto
    from s have "donated d = 1100"
      by (simp add: word_unat_eq_iff)
    with c have "completed d" by simp
    with d s g show ?thesis by auto
  qed
  have step: "\<exists>d. campaign_at 1 0 (execute 1 (Donate 11 0 600) ?w) = Some d
          \<and> unat (donated d) = 600 \<and> \<not> completed d"
  proof -
    from T [THEN conjunct2] one obtain d where
      d: "campaign_at 1 (unat (0 :: u64)) (execute 1 (Donate 11 0 600) ?w) = Some d"
      and s: "unat (donated d) = 600"
      and c: "completed d \<longleftrightarrow> (1000 :: u64) \<le> donated d"
      by auto
    from s have "donated d = 600"
      by (simp add: word_unat_eq_iff)
    with c have "\<not> completed d" by simp
    with d s show ?thesis by auto
  qed
  from acc seq step show ?thesis by blast
qed

subsection \<open>Donating to a withdrawn campaign\<close>

lemma solvent_funds:
  "solvent adm w \<Longrightarrow> campaign_store w adm = Some st \<Longrightarrow> \<exists>f. campaign_funds w adm = Some f"
  by (auto simp: solvent_def split: option.splits)

lemma donate_returns:
  assumes st: "campaign_store w adm = Some st" and f: "campaign_funds w adm = Some f"
    and i: "unat i < length (campaigns st)"
    and opn: "\<not> completed (campaigns st ! unat i)"
    and pay: "unat n \<le> coin_balance w donor"
    and fit: "unat (donated (campaigns st ! unat i)) + unat n < 2 ^ 64"
  shows "\<exists>v. donate adm donor i n w = Inr v"
  using assms unfolding donate_Inr by blast

lemma donate_keeps_withdrawn:
  assumes "donate adm donor i n w = Inr v" "campaign_at adm (unat i) w = Some c"
  shows "\<exists>d. campaign_at adm (unat i) v = Some d \<and> withdrawn d = withdrawn c"
  using assms
  by (auto simp: donate_Inr campaign_at_def)

lemma donate_treasury:
  assumes "donate adm donor i n w = Inr v"
  shows "treasury adm v = treasury adm w + unat n
         \<and> coin_balance v donor + unat n = coin_balance w donor"
  using assms
  by (auto simp: donate_Inr treasury_def)

lemma withdrawn_never_paid:
  assumes at: "campaign_at adm (unat i) v = Some d" and wd: "withdrawn d"
  shows "withdraw adm a i (run adm xs v) \<noteq> Inr u
         \<and> admin_withdraw adm a i (run adm xs v) \<noteq> Inr u"
proof -
  from run_withdrawn_mono [OF at wd, of xs] obtain d' where
    d': "campaign_at adm (unat i) (run adm xs v) = Some d'" "withdrawn d'"
    by blast
  show ?thesis
  proof (rule ccontr)
    assume "\<not> ?thesis"
    then have "withdraw adm a i (run adm xs v) = Inr u
               \<or> admin_withdraw adm a i (run adm xs v) = Inr u"
      by blast
    from payout_needs_unwithdrawn [OF this] d' show False
      by auto
  qed
qed


text \<open>
  Claim C9, as the code has it. Donate does not look at the withdrawn flag. In every
  storage reached from publication, for a campaign that is withdrawn and not completed:
  a Donate of an amount that the donor can pay and that keeps the campaign's donated
  amount within \<^verbatim>\<open>u64\<close> returns, adds exactly the amount to donated and to the
  treasury, and leaves the campaign withdrawn; and after any further transactions no
  Withdraw and no AdminWithdraw on that campaign returns, for any caller.
\<close>

theorem donate_after_admin_withdraw:
  assumes w: "w = run adm cs (genesis b)"
    and at: "campaign_at adm (unat i) w = Some c"
    and opn: "\<not> completed c"
    and wd: "withdrawn c"
    and pay: "unat n \<le> coin_balance w donor"
    and fit: "unat (donated c) + unat n < 2 ^ 64"
  shows "\<exists>v d. donate adm donor i n w = Inr v
           \<and> campaign_at adm (unat i) v = Some d
           \<and> unat (donated d) = unat (donated c) + unat n
           \<and> withdrawn d
           \<and> treasury adm v = treasury adm w + unat n
           \<and> (\<forall>xs a u. withdraw adm a i (run adm xs v) \<noteq> Inr u
                  \<and> admin_withdraw adm a i (run adm xs v) \<noteq> Inr u)"
proof -
  have sol: "solvent adm w"
    unfolding w by (rule run_solvent [OF genesis_solvent])
  from at obtain st where st: "campaign_store w adm = Some st"
    and i: "unat i < length (campaigns st)" and c: "c = campaigns st ! unat i"
    by (auto simp: campaign_at_def split: option.splits if_splits)
  from solvent_funds [OF sol st] obtain f where f: "campaign_funds w adm = Some f"
    by blast
  from donate_returns [OF st f i _ pay] opn fit c obtain v where
    v: "donate adm donor i n w = Inr v"
    by blast
  from donate_at [OF v at] obtain d where
    d: "campaign_at adm (unat i) v = Some d"
    and s: "unat (donated d) = unat (donated c) + unat n"
    by blast
  from donate_keeps_withdrawn [OF v at] d wd have wd': "withdrawn d"
    by auto
  have never: "\<forall>xs a u. withdraw adm a i (run adm xs v) \<noteq> Inr u
                  \<and> admin_withdraw adm a i (run adm xs v) \<noteq> Inr u"
    using withdrawn_never_paid [OF d wd'] by blast
  from v d s wd' donate_treasury [OF v] never show ?thesis
    by blast
qed

theorem donate_after_admin_withdraw_witness:
  "\<exists>v d. donate 1 12 0 100
            (run 1 [Initialize 1, CreateCampaign 10 [] [] 1000, Donate 11 0 600, AdminWithdraw 1 0]
               (genesis (\<lambda>_. 1000))) = Inr v
         \<and> campaign_at 1 0 v = Some d
         \<and> unat (donated d) = 700
         \<and> withdrawn d
         \<and> treasury 1 v = 100
         \<and> (\<forall>u. withdraw 1 10 0 v \<noteq> Inr u \<and> admin_withdraw 1 1 0 v \<noteq> Inr u)"
proof -
  let ?cs = "[Initialize 1, CreateCampaign 10 [] [] 1000, Donate 11 0 600, AdminWithdraw 1 0]"
  let ?w = "run 1 ?cs (genesis (\<lambda>_. 1000))"
  let ?c = "\<lparr>owner = 10, title = [], description = [], goal = 1000, donated = 600,
             completed = False, withdrawn = True\<rparr>"
  have at: "campaign_at 1 (unat (0 :: u64)) ?w = Some ?c"
    by (simp add: eval_defs campaign_at_def)
  have opn: "\<not> completed ?c" and wd: "withdrawn ?c"
    by simp_all
  have pay: "unat (100 :: u64) \<le> coin_balance ?w 12"
    by (simp add: eval_defs)
  have fit: "unat (donated ?c) + unat (100 :: u64) < 2 ^ 64"
    by simp
  have tr: "treasury 1 ?w = 0"
    by (simp add: eval_defs treasury_def)
  from donate_after_admin_withdraw [OF refl at opn wd pay fit] obtain v d where
    v: "donate 1 12 0 100 ?w = Inr v"
    and d: "campaign_at 1 (unat (0 :: u64)) v = Some d"
    and s: "unat (donated d) = unat (donated ?c) + unat (100 :: u64)"
    and wd': "withdrawn d"
    and t: "treasury 1 v = treasury 1 ?w + unat (100 :: u64)"
    and never: "\<forall>xs a u. withdraw 1 a 0 (run 1 xs v) \<noteq> Inr u
                  \<and> admin_withdraw 1 a 0 (run 1 xs v) \<noteq> Inr u"
    by blast
  from never [rule_format, of 10 "[]"] never [rule_format, of 1 "[]"]
  have n: "\<forall>u. withdraw 1 10 0 v \<noteq> Inr u \<and> admin_withdraw 1 1 0 v \<noteq> Inr u"
    by simp
  from d have d0: "campaign_at 1 0 v = Some d" by simp
  from s have s0: "unat (donated d) = 700" by simp
  from t tr have t0: "treasury 1 v = 100" by simp
  from v d0 s0 wd' t0 n show ?thesis by blast
qed


text \<open>
  The claim as first stated fails where the sum leaves \<^verbatim>\<open>u64\<close>. A campaign with the
  largest goal receives all but one octa of it and is paid out by the administrator; its
  owner, who now holds that amount, donates 2 octas: the call aborts on the addition in
  line 100, and the campaign's donated amount is as before.
\<close>

theorem overflowing_donation_aborts:
  "get_campaign 1 0
     (run 1 [Initialize 1, CreateCampaign 10 [] [] 18446744073709551615,
             Donate 11 0 18446744073709551614, AdminWithdraw 1 0]
        (genesis (\<lambda>a. if a = 11 then 18446744073709551615 else 0)))
     = Inr (10, [], [], 18446744073709551615, 18446744073709551614, False, True)
   \<and> unat (2 :: u64)
       \<le> coin_balance
            (run 1 [Initialize 1, CreateCampaign 10 [] [] 18446744073709551615,
                    Donate 11 0 18446744073709551614, AdminWithdraw 1 0]
               (genesis (\<lambda>a. if a = 11 then 18446744073709551615 else 0))) 10
   \<and> isl (donate 1 10 0 2
        (run 1 [Initialize 1, CreateCampaign 10 [] [] 18446744073709551615,
                Donate 11 0 18446744073709551614, AdminWithdraw 1 0]
           (genesis (\<lambda>a. if a = 11 then 18446744073709551615 else 0))))
   \<and> fst (projl (donate 1 10 0 2
        (run 1 [Initialize 1, CreateCampaign 10 [] [] 18446744073709551615,
                Donate 11 0 18446744073709551614, AdminWithdraw 1 0]
           (genesis (\<lambda>a. if a = 11 then 18446744073709551615 else 0))))) = ARITHMETIC_ERROR
   \<and> get_campaign 1 0
        (execute 1 (Donate 10 0 2)
           (run 1 [Initialize 1, CreateCampaign 10 [] [] 18446744073709551615,
                   Donate 11 0 18446744073709551614, AdminWithdraw 1 0]
              (genesis (\<lambda>a. if a = 11 then 18446744073709551615 else 0))))
     = Inr (10, [], [], 18446744073709551615, 18446744073709551614, False, True)"
  by (simp add: eval_defs get_campaign_def)

end
